theory Spec2Isabelle
  imports Main
begin

section \<open>Python values used by gffCLIP.py\<close>

text \<open>
  The exceptions the embedded code can raise.  \<open>IndexError\<close> is a list index out of
  range, \<open>UnpackError\<close> is the \<open>ValueError\<close> of a tuple unpacking with the wrong
  number of values, \<open>KeyError\<close> is a missing dictionary key, \<open>IntParseError\<close> is
  the \<open>ValueError\<close> of \<open>int()\<close>,
  \<open>NoGeneFeatures\<close> is the \<open>ValueError\<close> raised by \<open>_process_unsorted\<close> and
  \<open>GeneOrderError\<close> is the \<open>Exception\<close> raised by \<open>_process_sorted\<close>.
\<close>

datatype py_error =
  IndexError | KeyError | UnpackError | IntParseError | NoGeneFeatures | GeneOrderError

text \<open>\<open>s.split(c)\<close> for a separator of one character: never the empty list.\<close>

fun split_on :: "char \<Rightarrow> string \<Rightarrow> string list" where
  "split_on c [] = [[]]"
| "split_on c (x # xs) =
     (if x = c then [] # split_on c xs
      else (case split_on c xs of [] \<Rightarrow> [[x]] | w # ws \<Rightarrow> (x # w) # ws))"

text \<open>\<open>sep.join(xs)\<close>.\<close>

fun join :: "string \<Rightarrow> string list \<Rightarrow> string" where
  "join sep [] = []"
| "join sep [x] = x"
| "join sep (x # y # ys) = x @ sep @ join sep (y # ys)"

text \<open>\<open>str(n)\<close> for an integer: decimal digits, with a leading minus sign.\<close>

fun str_nat :: "nat \<Rightarrow> string" where
  "str_nat n =
     (if n < 10 then [''0123456789'' ! n]
      else str_nat (n div 10) @ [''0123456789'' ! (n mod 10)])"

declare str_nat.simps [simp del]

definition str_int :: "int \<Rightarrow> string" where
  "str_int i = (if i < 0 then CHR ''-'' # str_nat (nat (- i)) else str_nat (nat i))"

text \<open>The format specification \<open>{:0>w}\<close>: pad on the left with \<open>0\<close> up to width \<open>w\<close>.\<close>

definition pad0 :: "nat \<Rightarrow> string \<Rightarrow> string" where
  "pad0 w s = replicate (w - length s) CHR ''0'' @ s"

section \<open>gffCLIP.slidingWindow\<close>

text \<open>
  The fields the loop body reads from one BED line: \<open>line[0]\<close>, \<open>int(line[1])\<close>,
  \<open>int(line[2])\<close>, \<open>name = line[3].split('@')\<close>, the part of \<open>name[4]\<close> before
  the slash, \<open>line[4]\<close> and \<open>line[5]\<close>.
\<close>

record bed_fields =
  b_chrom :: string
  b_start :: int
  b_end :: int
  b_name :: "string list"
  b_featureNumber :: string
  b_score :: string
  b_strand :: string

text \<open>
  The reads of the loop body in the order in which the code makes them, each with the
  exception it raises.  The builtin \<open>int()\<close> is the parameter \<open>to_int\<close> (\<open>None\<close>
  when it raises \<open>ValueError\<close>).
\<close>

definition parse_bed :: "(string \<Rightarrow> int option) \<Rightarrow> string \<Rightarrow> py_error + bed_fields" where
  "parse_bed to_int ln =
     (let line = split_on (CHR 0x09) (hd (split_on (CHR 0x0A) ln)) in
      if length line < 4 then Inl IndexError
      else let name = split_on CHR ''@'' (line ! 3) in
      if length name < 5 then Inl IndexError
      else let parts = split_on CHR ''/'' (name ! 4) in
      if length parts \<noteq> 2 then Inl UnpackError
      else if length line < 6 then Inl IndexError
      else (case to_int (line ! 1) of
              None \<Rightarrow> Inl IntParseError
            | Some start \<Rightarrow>
               (case to_int (line ! 2) of
                  None \<Rightarrow> Inl IntParseError
                | Some end \<Rightarrow>
                    Inr \<lparr>b_chrom = line ! 0, b_start = start, b_end = end, b_name = name,
                         b_featureNumber = parts ! 0, b_score = line ! 4,
                         b_strand = line ! 5\<rparr>)))"

text \<open>
  One output row.  The code writes the tab-joined text of the row; the row is kept with
  its two coordinates as integers, and \<open>row_text\<close> is the text written.
\<close>

record window_row =
  w_chrom :: string
  w_start :: int
  w_end :: int
  w_name :: string
  w_score :: string
  w_strand :: string

definition UID :: "bed_fields \<Rightarrow> int \<Rightarrow> string" where
  "UID b windowCount =
     (b_name b ! 0) @ '':'' @ (b_name b ! 3) @ pad0 4 (b_featureNumber b) @ ''W''
       @ pad0 5 (str_int windowCount)"

definition mk_row :: "bed_fields \<Rightarrow> int \<Rightarrow> int \<Rightarrow> int \<Rightarrow> window_row" where
  "mk_row b pos1 pos2 windowCount =
     \<lparr>w_chrom = b_chrom b, w_start = pos1, w_end = pos2,
      w_name = join ''@'' (take 5 (b_name b) @ [UID b windowCount, str_int windowCount]),
      w_score = b_score b, w_strand = b_strand b\<rparr>"

definition row_text :: "window_row \<Rightarrow> string" where
  "row_text r =
     join [CHR 0x09] [w_chrom r, str_int (w_start r), str_int (w_end r), w_name r,
                      w_score r, w_strand r] @ [CHR 0x0A]"

text \<open>
  The \<open>while pos2 < end\<close> loop.  It does not return when \<open>windowStep \<le> 0\<close>, so the
  result is an option: \<open>None\<close> is a loop that runs forever.  The state is
  \<open>pos1\<close>, \<open>pos2\<close>, \<open>windowCount\<close> and the rows written so far.
\<close>

partial_function (option) sw_loop ::
  "bed_fields \<Rightarrow> int \<Rightarrow> int \<Rightarrow> int \<Rightarrow> int \<Rightarrow> int \<Rightarrow> window_row list
     \<Rightarrow> (window_row list \<times> int) option" where
  "sw_loop b windowStep end pos1 pos2 windowCount out =
     (if pos2 < end then
        (if pos2 + windowStep > end
         then sw_loop b windowStep end (pos1 + windowStep) end (windowCount + 2)
                (out @ [mk_row b pos1 pos2 windowCount,
                        mk_row b (pos1 + windowStep) end (windowCount + 1)])
         else sw_loop b windowStep end (pos1 + windowStep) (pos2 + windowStep) (windowCount + 1)
                (out @ [mk_row b pos1 pos2 windowCount]))
      else Some (out, windowCount))"

declare sw_loop.simps [code]

text \<open>
  The windows of one parsed line, from the counter value \<open>windowCount\<close>: the rows and
  the counter after the last increment.
\<close>

definition tile :: "int \<Rightarrow> int \<Rightarrow> bed_fields \<Rightarrow> int \<Rightarrow> (window_row list \<times> int) option" where
  "tile windowSize windowStep b windowCount =
     (if b_start b + windowSize \<ge> b_end b
      then Some ([mk_row b (b_start b) (b_end b) windowCount], windowCount + 1)
      else sw_loop b windowStep (b_end b) (b_start b) (b_start b + windowSize) windowCount [])"

text \<open>
  The body of \<open>for line in almnt_file\<close> for a line that does not start with
  \<open>track\<close>: the rows written for the line and the updated \<open>windowidMap\<close>.
\<close>

definition sw_line ::
  "(string \<Rightarrow> int option) \<Rightarrow> int \<Rightarrow> int \<Rightarrow> (string \<rightharpoonup> int) \<Rightarrow> string
     \<Rightarrow> (py_error + window_row list \<times> (string \<rightharpoonup> int)) option" where
  "sw_line to_int windowSize windowStep windowidMap ln =
     (case parse_bed to_int ln of
        Inl e \<Rightarrow> Some (Inl e)
      | Inr b \<Rightarrow>
          (let name0 = b_name b ! 0;
               windowCount = (case windowidMap name0 of Some c \<Rightarrow> c + 1 | None \<Rightarrow> 1)
           in case tile windowSize windowStep b windowCount of
                None \<Rightarrow> None
              | Some (rows, windowCount') \<Rightarrow>
                  Some (Inr (rows, windowidMap(name0 \<mapsto> windowCount')))))"

text \<open>
  The loop over the lines of the file, from \<open>windowidMap\<close> and the rows written so
  far.  \<open>slidingWindow\<close> starts it with the empty map and no rows.
\<close>

fun sw_lines ::
  "(string \<Rightarrow> int option) \<Rightarrow> int \<Rightarrow> int \<Rightarrow> (string \<rightharpoonup> int) \<Rightarrow> window_row list
     \<Rightarrow> string list \<Rightarrow> (py_error + window_row list) option" where
  "sw_lines to_int windowSize windowStep windowidMap out [] = Some (Inr out)"
| "sw_lines to_int windowSize windowStep windowidMap out (ln # lns) =
     (if take 5 ln = ''track'' then sw_lines to_int windowSize windowStep windowidMap out lns
      else (case sw_line to_int windowSize windowStep windowidMap ln of
              None \<Rightarrow> None
            | Some (Inl e) \<Rightarrow> Some (Inl e)
            | Some (Inr (rows, windowidMap')) \<Rightarrow>
                sw_lines to_int windowSize windowStep windowidMap' (out @ rows) lns))"

definition slidingWindow ::
  "(string \<Rightarrow> int option) \<Rightarrow> int \<Rightarrow> int \<Rightarrow> string list \<Rightarrow> (py_error + window_row list) option" where
  "slidingWindow to_int windowSize windowStep lns =
     sw_lines to_int windowSize windowStep Map.empty [] lns"

text \<open>
  The rows the \<open>while\<close> loop has written after at most \<open>n\<close> passes through its
  body, from the state \<open>pos1\<close>, \<open>pos2\<close>, \<open>windowCount\<close>.  The rows are written
  one by one, so a loop that never returns has written them all the same; every row the
  loop ever writes is in this list for some \<open>n\<close>.
\<close>

fun sw_written ::
  "nat \<Rightarrow> bed_fields \<Rightarrow> int \<Rightarrow> int \<Rightarrow> int \<Rightarrow> int \<Rightarrow> int \<Rightarrow> window_row list" where
  "sw_written 0 b windowStep end pos1 pos2 windowCount = []"
| "sw_written (Suc n) b windowStep end pos1 pos2 windowCount =
     (if pos2 < end then
        (if pos2 + windowStep > end
         then [mk_row b pos1 pos2 windowCount,
               mk_row b (pos1 + windowStep) end (windowCount + 1)]
              @ sw_written n b windowStep end (pos1 + windowStep) end (windowCount + 2)
         else mk_row b pos1 pos2 windowCount
              # sw_written n b windowStep end (pos1 + windowStep) (pos2 + windowStep)
                  (windowCount + 1))
      else [])"

text \<open>
  The rows written for one line when the loop makes at most \<open>n\<close> passes: the branches
  of \<open>tile\<close> and the counter lookup of \<open>sw_line\<close>, with \<open>sw_written\<close> for the loop.
  A line that raises has written nothing.
\<close>

definition sw_line_written ::
  "nat \<Rightarrow> (string \<Rightarrow> int option) \<Rightarrow> int \<Rightarrow> int \<Rightarrow> (string \<rightharpoonup> int) \<Rightarrow> string
     \<Rightarrow> window_row list" where
  "sw_line_written n to_int windowSize windowStep windowidMap ln =
     (case parse_bed to_int ln of
        Inl e \<Rightarrow> []
      | Inr b \<Rightarrow>
          (let name0 = b_name b ! 0;
               windowCount = (case windowidMap name0 of Some c \<Rightarrow> c + 1 | None \<Rightarrow> 1)
           in if b_start b + windowSize \<ge> b_end b
              then [mk_row b (b_start b) (b_end b) windowCount]
              else sw_written n b windowStep (b_end b) (b_start b) (b_start b + windowSize)
                     windowCount))"

text \<open>
  A reader of plain decimal numerals with an optional minus sign, used to run the
  model on concrete lines.  The builtin \<open>int()\<close> accepts more (a plus sign,
  surrounding whitespace, underscores between digits); the theorems take the reader as
  the parameter \<open>to_int\<close> and hold for every reader.
\<close>

fun dec_nat :: "nat \<Rightarrow> string \<Rightarrow> nat option" where
  "dec_nat acc [] = Some acc"
| "dec_nat acc (c # cs) =
     (if c \<in> set ''0123456789''
      then dec_nat (10 * acc + (of_char c - 48)) cs else None)"

definition dec_int :: "string \<Rightarrow> int option" where
  "dec_int s =
     (case s of
        [] \<Rightarrow> None
      | c # cs \<Rightarrow>
          if c = CHR ''-'' then (if cs = [] then None else map_option (\<lambda>n. - int n) (dec_nat 0 cs))
          else map_option int (dec_nat 0 s))"

text \<open>A BED line of six tab-separated fields, ended by a newline.\<close>

definition bed_line ::
  "string \<Rightarrow> string \<Rightarrow> string \<Rightarrow> string \<Rightarrow> string \<Rightarrow> string \<Rightarrow> string" where
  "bed_line chrom start end name score strand =
     join [CHR 0x09] [chrom, start, end, name, score, strand] @ [CHR 0x0A]"

section \<open>Dictionaries iterated in insertion order\<close>

text \<open>
  A dictionary whose \<open>items()\<close> are read is a list of pairs with distinct keys, in
  the order in which the keys were inserted.  \<open>odict_upd k h d\<close> stores at \<open>k\<close>
  the value \<open>h\<close> computes from the old entry (\<open>None\<close> when the key is missing): an
  existing key keeps its place, a new key goes to the end.
\<close>

fun odict_upd :: "'k \<Rightarrow> ('v option \<Rightarrow> 'v) \<Rightarrow> ('k \<times> 'v) list \<Rightarrow> ('k \<times> 'v) list" where
  "odict_upd k h [] = [(k, h None)]"
| "odict_upd k h ((k', v) # kvs) =
     (if k' = k then (k', h (Some v)) # kvs else (k', v) # odict_upd k h kvs)"

text \<open>The distinct elements of a list in the order of their first occurrences.\<close>

definition first_seen :: "'a list \<Rightarrow> 'a list" where
  "first_seen xs = rev (remdups (rev xs))"

section \<open>Features\<close>

text \<open>
  A feature as the GFF reader of HTSeq yields it: \<open>f.type\<close>, the interval \<open>f.iv\<close>
  (\<open>chrom\<close>, \<open>start\<close>, \<open>end\<close>, \<open>strand\<close>) and the attribute dictionary \<open>f.attr\<close>,
  kept as an association list and read with \<open>map_of\<close>.  The reader is an iterator
  of features; the model takes the list of the features it yields.
\<close>

record feature =
  f_type :: string
  f_chrom :: string
  f_start :: int
  f_end :: int
  f_strand :: string
  f_attr :: "(string \<times> string) list"

section \<open>GeneInfo\<close>

record GeneInfo =
  gi_id :: string
  featList :: "feature list"
  geneDefinitions :: "string set"
  typeMap :: "string \<rightharpoonup> nat list"

definition GeneInfo_init :: "string \<Rightarrow> string list \<Rightarrow> GeneInfo" where
  "GeneInfo_init i defs =
     \<lparr>gi_id = i, featList = [], geneDefinitions = set defs, typeMap = Map.empty\<rparr>"

text \<open>The default value of the argument \<open>geneDefinitions\<close> of \<open>GeneInfo.__init__\<close>.\<close>

definition GeneInfo_default_geneDefinitions :: "string list" where
  "GeneInfo_default_geneDefinitions = [''tRNA'', ''gene'', ''tRNAscan'', ''tRNA_gene'']"

definition add_feature :: "GeneInfo \<Rightarrow> feature \<Rightarrow> GeneInfo" where
  "add_feature g f =
     (let fl = featList g @ [f] in
      g\<lparr>featList := fl,
        typeMap := (typeMap g)(f_type f \<mapsto>
          (case typeMap g (f_type f) of
             Some inds \<Rightarrow> inds @ [length fl - 1]
           | None \<Rightarrow> [length fl - 1]))\<rparr>)"

definition features :: "GeneInfo \<Rightarrow> feature list" where
  "features g = featList g"

text \<open>
  The loop of \<open>_checkGeneFeature\<close>: the three sets after the indices in
  \<open>geneInd\<close>, or the \<open>IndexError\<close> of \<open>self._featList[gi]\<close>.
\<close>

fun checkGeneFeature_loop ::
  "feature list \<Rightarrow> nat list \<Rightarrow> int set \<times> int set \<times> string set
     \<Rightarrow> py_error + int set \<times> int set \<times> string set" where
  "checkGeneFeature_loop fl [] acc = Inr acc"
| "checkGeneFeature_loop fl (gi # gis) (start_pos, end_pos, strand) =
     (if gi < length fl
      then checkGeneFeature_loop fl gis
             (insert (f_start (fl ! gi)) start_pos, insert (f_end (fl ! gi)) end_pos,
              insert (f_strand (fl ! gi)) strand)
      else Inl IndexError)"

definition checkGeneFeature :: "GeneInfo \<Rightarrow> nat list \<Rightarrow> py_error + bool" where
  "checkGeneFeature g geneInd =
     (case checkGeneFeature_loop (featList g) geneInd ({}, {}, {}) of
        Inl e \<Rightarrow> Inl e
      | Inr (start_pos, end_pos, strand) \<Rightarrow>
          Inr (card start_pos = 1 \<and> card end_pos = 1 \<and> card strand = 1))"

text \<open>\<open>xs[i]\<close> for an index that is not negative.\<close>

definition py_nth :: "'a list \<Rightarrow> nat \<Rightarrow> py_error + 'a" where
  "py_nth xs i = (if i < length xs then Inr (xs ! i) else Inl IndexError)"

text \<open>
  The property \<open>gene\<close>: the feature returned (\<open>None\<close> as in the code) together with
  the text written to \<open>sys.stderr\<close>.  \<open>geneDef\<close> is the intersection of the
  gene-defining types with the keys of the type map; the code turns it into a list and
  uses its length and, when that is one, its only element.
\<close>

definition gene :: "GeneInfo \<Rightarrow> py_error + feature option \<times> string list" where
  "gene g =
     (let geneDef = Set.filter (\<lambda>t. typeMap g t \<noteq> None) (geneDefinitions g) in
      if card geneDef = 0
      then Inr (None, [gi_id g @ '': No gene definitions found!...Skipping'' @ [CHR 0x0A]])
      else if card geneDef > 1
      then Inr (None, [gi_id g @ '': Multiple gene definitions found!...Skipping'' @ [CHR 0x0A]])
      else (case typeMap g (the_elem geneDef) of
              None \<Rightarrow> Inl KeyError
            | Some geneInd \<Rightarrow>
                if length geneInd > 1 then
                  (case checkGeneFeature g geneInd of
                     Inl e \<Rightarrow> Inl e
                   | Inr True \<Rightarrow>
                       (case py_nth (featList g) (geneInd ! 0) of
                          Inl e \<Rightarrow> Inl e
                        | Inr f \<Rightarrow>
                            Inr (Some f,
                              [gi_id g @ '': Found multiple attributes for the same gene co-ordinates, using one at random'' @ [CHR 0x0A]]))
                   | Inr False \<Rightarrow>
                       Inr (None, [gi_id g @ '': Multiple gene features found!...Skipping'' @ [CHR 0x0A]]))
                else (case geneInd of
                        [] \<Rightarrow> Inl IndexError
                      | i # _ \<Rightarrow>
                          (case py_nth (featList g) i of
                             Inl e \<Rightarrow> Inl e
                           | Inr f \<Rightarrow> Inr (Some f, [])))))"

section \<open>Collaborators of gffCLIP that are not among the sources\<close>

text \<open>
  Modelled from the spec: the class \<open>Gene\<close> (\<open>Gene.py\<close> is not among the sources).
  It is the GeneAccumulator of the specification: one canonical gene feature and an
  ordered sequence of subordinate features, \<open>add(feature)\<close> appending to the sequence.
  The two flags are the attributes \<open>splitExons\<close> and \<open>processGeneOnlyInformation\<close>
  that \<open>gffCLIP\<close> sets on every gene it creates.
\<close>

record Gene =
  g_feature :: feature
  g_features :: "feature list"
  g_splitExons :: bool
  g_processGeneOnlyInformation :: bool

definition Gene_init :: "feature \<Rightarrow> bool \<Rightarrow> bool \<Rightarrow> Gene" where
  "Gene_init f splitExons geneOnly =
     \<lparr>g_feature = f, g_features = [], g_splitExons = splitExons,
      g_processGeneOnlyInformation = geneOnly\<rparr>"

definition Gene_add :: "Gene \<Rightarrow> feature \<Rightarrow> Gene" where
  "Gene_add g f = g\<lparr>g_features := g_features g @ [f]\<rparr>"

text \<open>
  Modelled from the spec: the class \<open>GeneLengthSummary\<close> (\<open>GeneLengthSummary.py\<close> is
  not among the sources).  It is the SummaryAccumulator of the specification: two
  insertion-ordered mappings, chromosome to cumulative length and gene type to
  cumulative length.  An insertion-ordered mapping is a list of pairs with distinct
  keys; \<open>accumulate\<close> adds a length to the bucket of a key, a new key going to the end,
  and \<open>GeneLengthSummary_add_length\<close> is what \<open>add(gene)\<close> does for a gene of the
  given chromosome, gene type and length.  The attribute \<open>splitExons\<close> that
  \<open>process\<close> sets on the summary is read by that class alone and is left out.
\<close>

record GeneLengthSummary =
  chromosomes :: "(string \<times> int) list"
  genetypes :: "(string \<times> int) list"

definition GeneLengthSummary_init :: GeneLengthSummary where
  "GeneLengthSummary_init = \<lparr>chromosomes = [], genetypes = []\<rparr>"

definition accumulate :: "string \<Rightarrow> int \<Rightarrow> (string \<times> int) list \<Rightarrow> (string \<times> int) list" where
  "accumulate k n kvs = odict_upd k (\<lambda>v. case v of Some m \<Rightarrow> m + n | None \<Rightarrow> n) kvs"

definition GeneLengthSummary_add_length ::
  "string \<times> string \<times> int \<Rightarrow> GeneLengthSummary \<Rightarrow> GeneLengthSummary" where
  "GeneLengthSummary_add_length g s =
     (case g of (chrom, gtype, len) \<Rightarrow>
        \<lparr>chromosomes = accumulate chrom len (chromosomes s),
         genetypes = accumulate gtype len (genetypes s)\<rparr>)"

text \<open>
  Modelled from the spec: \<open>GTxFeature.isGene\<close> (\<open>GTxFeature.py\<close> is not among the
  sources): a feature is gene-defining when its type is in the configured set of
  gene-defining types.  \<open>GTxFeature(f)\<close> itself wraps the feature and is the identity
  here.
\<close>

definition GTxFeature_isGene :: "string list \<Rightarrow> feature \<Rightarrow> bool" where
  "GTxFeature_isGene defs f = (f_type f \<in> set defs)"

section \<open>gffCLIP: flattening the annotation\<close>

text \<open>
  The attributes of the \<open>gffCLIP\<close> object that the processing reads.
  \<open>geneDefinitions\<close> is a class attribute that \<open>__init__\<close> never replaces.
\<close>

record gffCLIP =
  geneId :: string
  splitExons :: bool
  processGeneOnlyInformation :: bool

definition gffCLIP_geneDefinitions :: "string list" where
  "gffCLIP_geneDefinitions = [''tRNA'', ''gene'', ''tRNAscan'', ''tRNA_gene'']"

text \<open>
  What a run changes: the strings written to \<open>fOutput\<close> in order, the summary, and
  the strings written to \<open>sys.stderr\<close>.
\<close>

record run_state =
  fOutput :: "string list"
  summary :: GeneLengthSummary
  stderr :: "string list"

text \<open>
  \<open>processGene\<close>.  The flattening \<open>gene.toBedDetailed()\<close> and \<open>summary.add(gene)\<close>
  belong to classes that are not among the sources; they are the parameters
  \<open>toBedDetailed\<close> and \<open>summary_add\<close>.
\<close>

definition processGene ::
  "(Gene \<Rightarrow> string list) \<Rightarrow> (Gene \<Rightarrow> GeneLengthSummary \<Rightarrow> GeneLengthSummary)
     \<Rightarrow> Gene option \<Rightarrow> run_state \<Rightarrow> run_state" where
  "processGene toBedDetailed summary_add gn st =
     (case gn of
        None \<Rightarrow> st
      | Some g \<Rightarrow>
          st\<lparr>fOutput := fOutput st @ map (\<lambda>be. be @ [CHR 0x0A]) (toBedDetailed g),
             summary := summary_add g (summary st)\<rparr>)"

text \<open>
  The loop of \<open>_process_sorted\<close>, from the current gene and the state; \<open>isGene\<close> is
  \<open>feature.isGene()\<close>.
\<close>

fun process_sorted_loop ::
  "gffCLIP \<Rightarrow> (feature \<Rightarrow> bool) \<Rightarrow> (Gene \<Rightarrow> string list)
     \<Rightarrow> (Gene \<Rightarrow> GeneLengthSummary \<Rightarrow> GeneLengthSummary)
     \<Rightarrow> Gene option \<Rightarrow> run_state \<Rightarrow> feature list \<Rightarrow> py_error + Gene option \<times> run_state" where
  "process_sorted_loop self isGene toBed sadd gn st [] = Inr (gn, st)"
| "process_sorted_loop self isGene toBed sadd gn st (f # gtf) =
     (if isGene f
      then process_sorted_loop self isGene toBed sadd
             (Some (Gene_init f (splitExons self) (processGeneOnlyInformation self)))
             (processGene toBed sadd gn st) gtf
      else (case gn of
              None \<Rightarrow> Inl GeneOrderError
            | Some g \<Rightarrow> process_sorted_loop self isGene toBed sadd (Some (Gene_add g f)) st gtf))"

definition process_sorted ::
  "gffCLIP \<Rightarrow> (feature \<Rightarrow> bool) \<Rightarrow> (Gene \<Rightarrow> string list)
     \<Rightarrow> (Gene \<Rightarrow> GeneLengthSummary \<Rightarrow> GeneLengthSummary)
     \<Rightarrow> run_state \<Rightarrow> feature list \<Rightarrow> py_error + run_state" where
  "process_sorted self isGene toBed sadd st gtf =
     (case process_sorted_loop self isGene toBed sadd None st gtf of
        Inl e \<Rightarrow> Inl e
      | Inr (gn, st') \<Rightarrow> Inr (processGene toBed sadd gn st'))"

text \<open>
  \<open>self._geneMap\<close>, a dictionary iterated in insertion order: a list of pairs with
  distinct keys.  \<open>geneMap_add\<close> is the \<open>try\<close>/\<open>except KeyError\<close> of the first
  loop of \<open>_process_unsorted\<close>.
\<close>

definition geneMap_add ::
  "string \<Rightarrow> feature \<Rightarrow> (string \<times> GeneInfo) list \<Rightarrow> (string \<times> GeneInfo) list" where
  "geneMap_add k f geneMap =
     odict_upd k
       (\<lambda>v. case v of
              Some g \<Rightarrow> add_feature g f
            | None \<Rightarrow> add_feature (GeneInfo_init k GeneInfo_default_geneDefinitions) f)
       geneMap"

fun unsorted_pass1 ::
  "gffCLIP \<Rightarrow> (string \<times> GeneInfo) list \<Rightarrow> feature list \<Rightarrow> (string \<times> GeneInfo) list" where
  "unsorted_pass1 self geneMap [] = geneMap"
| "unsorted_pass1 self geneMap (f # gtf) =
     (case map_of (f_attr f) (geneId self) of
        None \<Rightarrow> unsorted_pass1 self geneMap gtf
      | Some k \<Rightarrow> unsorted_pass1 self (geneMap_add k f geneMap) gtf)"

text \<open>The gene built in the second loop from the feature \<open>_gene\<close> and a GeneInfo.\<close>

definition unsorted_gene :: "gffCLIP \<Rightarrow> feature \<Rightarrow> GeneInfo \<Rightarrow> Gene" where
  "unsorted_gene self g geneObj =
     foldl Gene_add (Gene_init g (splitExons self) (processGeneOnlyInformation self))
       (filter (\<lambda>f. f_type f \<notin> set gffCLIP_geneDefinitions) (features geneObj))"

fun unsorted_pass2 ::
  "gffCLIP \<Rightarrow> (Gene \<Rightarrow> string list) \<Rightarrow> (Gene \<Rightarrow> GeneLengthSummary \<Rightarrow> GeneLengthSummary)
     \<Rightarrow> run_state \<Rightarrow> (string \<times> GeneInfo) list \<Rightarrow> py_error + run_state" where
  "unsorted_pass2 self toBed sadd st [] = Inr st"
| "unsorted_pass2 self toBed sadd st ((k, geneObj) # items) =
     (case gene geneObj of
        Inl e \<Rightarrow> Inl e
      | Inr (None, msgs) \<Rightarrow>
          unsorted_pass2 self toBed sadd (st\<lparr>stderr := stderr st @ msgs\<rparr>) items
      | Inr (Some g, msgs) \<Rightarrow>
          unsorted_pass2 self toBed sadd
            (processGene toBed sadd (Some (unsorted_gene self g geneObj))
               (st\<lparr>stderr := stderr st @ msgs\<rparr>)) items)"

definition process_unsorted ::
  "gffCLIP \<Rightarrow> (Gene \<Rightarrow> string list) \<Rightarrow> (Gene \<Rightarrow> GeneLengthSummary \<Rightarrow> GeneLengthSummary)
     \<Rightarrow> run_state \<Rightarrow> feature list \<Rightarrow> py_error + run_state" where
  "process_unsorted self toBed sadd st gtf =
     (let geneMap = unsorted_pass1 self [] gtf in
      if length geneMap = 0 then Inl NoGeneFeatures
      else unsorted_pass2 self toBed sadd st geneMap)"

definition write_summary :: "run_state \<Rightarrow> run_state" where
  "write_summary st =
     st\<lparr>fOutput := fOutput st
          @ map (\<lambda>(chrom, len). ''track chr '' @ chrom @ '' '' @ str_int len @ [CHR 0x0A])
              (chromosomes (summary st))
          @ map (\<lambda>(gtype, len). ''track type '' @ gtype @ '' '' @ str_int len @ [CHR 0x0A])
              (genetypes (summary st))\<rparr>"

text \<open>\<open>process\<close>: a fresh summary, one of the two traversals, then the trailer.\<close>

definition process ::
  "gffCLIP \<Rightarrow> (feature \<Rightarrow> bool) \<Rightarrow> (Gene \<Rightarrow> string list)
     \<Rightarrow> (Gene \<Rightarrow> GeneLengthSummary \<Rightarrow> GeneLengthSummary)
     \<Rightarrow> bool \<Rightarrow> run_state \<Rightarrow> feature list \<Rightarrow> py_error + run_state" where
  "process self isGene toBed sadd unsorted st gtf =
     (let st0 = st\<lparr>summary := GeneLengthSummary_init\<rparr> in
      case (if unsorted then process_unsorted self toBed sadd st0 gtf
            else process_sorted self isGene toBed sadd st0 gtf) of
        Inl e \<Rightarrow> Inl e
      | Inr st' \<Rightarrow> Inr (write_summary st'))"

section \<open>Vocabulary of the properties\<close>

text \<open>The positions of the features of type \<open>t\<close> in a feature list, increasing.\<close>

definition type_positions :: "feature list \<Rightarrow> string \<Rightarrow> nat list" where
  "type_positions fl t = filter (\<lambda>i. f_type (fl ! i) = t) [0..<length fl]"

text \<open>
  The invariant of a GeneInfo: a type without a stored feature has no entry in the type
  map, and the entry of any other type is the strictly increasing list of the positions
  of the stored features of that type.
\<close>

definition GeneInfo_inv :: "GeneInfo \<Rightarrow> bool" where
  "GeneInfo_inv g \<longleftrightarrow>
     (\<forall>t. case typeMap g t of
            None \<Rightarrow> \<forall>i<length (featList g). f_type (featList g ! i) \<noteq> t
          | Some inds \<Rightarrow>
              inds \<noteq> [] \<and> sorted_wrt (<) inds
              \<and> set inds = {i. i < length (featList g) \<and> f_type (featList g ! i) = t})"

text \<open>
  The words of the specification about the resolution of a gene: the gene-defining
  types that occur among the stored features, the stored features of a gene-defining
  type in order, and a list of features that all share one triple of start, end and
  strand.
\<close>

definition gene_types_present :: "GeneInfo \<Rightarrow> string set" where
  "gene_types_present g = {t \<in> geneDefinitions g. \<exists>f\<in>set (featList g). f_type f = t}"

definition gene_occurrences :: "GeneInfo \<Rightarrow> feature list" where
  "gene_occurrences g = filter (\<lambda>f. f_type f \<in> geneDefinitions g) (featList g)"

definition same_coordinates :: "feature list \<Rightarrow> bool" where
  "same_coordinates fs \<longleftrightarrow>
     (\<forall>f\<in>set fs. \<forall>f'\<in>set fs.
        (f_start f, f_end f, f_strand f) = (f_start f', f_end f', f_strand f'))"

text \<open>A feature on \<open>chr1\<close> with the single attribute \<open>gene_id\<close>, for the examples.\<close>

definition example_feature :: "string \<Rightarrow> int \<Rightarrow> int \<Rightarrow> string \<Rightarrow> string \<Rightarrow> feature" where
  "example_feature t s e strand gid =
     \<lparr>f_type = t, f_chrom = ''chr1'', f_start = s, f_end = e, f_strand = strand,
      f_attr = [(''gene_id'', gid)]\<rparr>"

text \<open>
  The words of the specification about the first pass of the unsorted mode: the gene
  ids of a feature stream in the order in which they are first seen, and the features
  that carry a given gene id, in stream order.
\<close>

definition gene_ids :: "gffCLIP \<Rightarrow> feature list \<Rightarrow> string list" where
  "gene_ids self gtf = first_seen (List.map_filter (\<lambda>f. map_of (f_attr f) (geneId self)) gtf)"

definition gene_group :: "gffCLIP \<Rightarrow> feature list \<Rightarrow> string \<Rightarrow> feature list" where
  "gene_group self gtf k = filter (\<lambda>f. map_of (f_attr f) (geneId self) = Some k) gtf"

text \<open>
  The gene map of the first pass in those words: for every gene id in first-seen order,
  a GeneInfo to which the features of its group were added in stream order.
\<close>

definition pass1_spec :: "gffCLIP \<Rightarrow> feature list \<Rightarrow> (string \<times> GeneInfo) list" where
  "pass1_spec self gtf =
     map (\<lambda>k. (k, foldl add_feature (GeneInfo_init k GeneInfo_default_geneDefinitions)
                    (gene_group self gtf k)))
       (gene_ids self gtf)"

text \<open>
  The words of the specification about the second pass: the canonical feature of a
  GeneInfo when its resolution succeeds, the gene accumulator built from it (seeded
  from the canonical feature, with the stored features that are not of a gene-defining
  type as subordinates), and the genes finalized for a gene map, in its order.
\<close>

definition resolved :: "GeneInfo \<Rightarrow> feature option" where
  "resolved g =
     (if card (gene_types_present g) = 1
         \<and> (length (gene_occurrences g) = 1 \<or> same_coordinates (gene_occurrences g))
      then Some (hd (gene_occurrences g)) else None)"

definition accumulator :: "gffCLIP \<Rightarrow> feature \<Rightarrow> GeneInfo \<Rightarrow> Gene" where
  "accumulator self c g =
     \<lparr>g_feature = c,
      g_features = filter (\<lambda>f. f_type f \<notin> set gffCLIP_geneDefinitions) (featList g),
      g_splitExons = splitExons self,
      g_processGeneOnlyInformation = processGeneOnlyInformation self\<rparr>"

definition finalized :: "gffCLIP \<Rightarrow> (string \<times> GeneInfo) list \<Rightarrow> Gene list" where
  "finalized self geneMap =
     List.map_filter (\<lambda>(k, g). map_option (\<lambda>c. accumulator self c g) (resolved g)) geneMap"

text \<open>The text \<open>processGene\<close> writes for a list of genes.\<close>

definition bed_rows :: "(Gene \<Rightarrow> string list) \<Rightarrow> Gene list \<Rightarrow> string list" where
  "bed_rows toBedDetailed gs = concat (map (\<lambda>g. map (\<lambda>be. be @ [CHR 0x0A]) (toBedDetailed g)) gs)"



text \<open>
  Stand-ins for the configuration and for the collaborators that are parameters of the
  model, for the examples: the usual attribute key, a flattening that writes one row
  for the gene and one for each subordinate feature, and a summary that counts the
  length of the gene feature under its chromosome and its type.
\<close>

definition example_self :: gffCLIP where
  "example_self = \<lparr>geneId = ''gene_id'', splitExons = True, processGeneOnlyInformation = True\<rparr>"

definition example_row :: "feature \<Rightarrow> string" where
  "example_row f =
     join [CHR 0x09] [f_chrom f, str_int (f_start f), str_int (f_end f), f_type f, ''0'', f_strand f]"

definition example_toBed :: "Gene \<Rightarrow> string list" where
  "example_toBed g = map example_row (g_feature g # g_features g)"

definition example_summary_add :: "Gene \<Rightarrow> GeneLengthSummary \<Rightarrow> GeneLengthSummary" where
  "example_summary_add g s =
     GeneLengthSummary_add_length
       (f_chrom (g_feature g), f_type (g_feature g), f_end (g_feature g) - f_start (g_feature g)) s"

definition empty_run :: run_state where
  "empty_run = \<lparr>fOutput = [], summary = GeneLengthSummary_init, stderr = []\<rparr>"

section \<open>Properties of slidingWindow\<close>

text \<open>
  With a positive step the loop returns.  It appends its rows to the rows already
  written and adds one to the counter for each row; when it starts from a window of
  width \<open>windowSize\<close> and the step is at most that width, no row is empty.
\<close>

lemma sw_loop_rows:
  assumes "0 < windowStep"
  shows "\<exists>rows. sw_loop b windowStep e pos1 pos2 windowCount out
                  = Some (out @ rows, windowCount + int (length rows))
           \<and> (pos2 = pos1 + windowSize \<and> windowStep \<le> windowSize
                \<longrightarrow> (\<forall>r\<in>set rows. w_start r < w_end r))"
proof (induction "nat (e - pos2)" arbitrary: pos1 pos2 windowCount out rule: less_induct)
  case less
  show ?case
  proof (cases "pos2 < e")
    case False
    then have "sw_loop b windowStep e pos1 pos2 windowCount out = Some (out, windowCount)"
      by (subst sw_loop.simps) simp
    then show ?thesis by simp
  next
    case True
    show ?thesis
    proof (cases "pos2 + windowStep > e")
      case over: True
      let ?two = "[mk_row b pos1 pos2 windowCount,
                   mk_row b (pos1 + windowStep) e (windowCount + 1)]"
      have "sw_loop b windowStep e (pos1 + windowStep) e (windowCount + 2) (out @ ?two)
            = Some (out @ ?two, windowCount + 2)"
        by (subst sw_loop.simps) simp
      with True over
      have "sw_loop b windowStep e pos1 pos2 windowCount out
            = Some (out @ ?two, windowCount + int (length ?two))"
        by (subst sw_loop.simps) simp
      moreover have "pos2 = pos1 + windowSize \<and> windowStep \<le> windowSize
            \<longrightarrow> (\<forall>r\<in>set ?two. w_start r < w_end r)"
        using True assms by (auto simp: mk_row_def)
      ultimately show ?thesis by blast
    next
      case under: False
      let ?one = "mk_row b pos1 pos2 windowCount"
      have "nat (e - (pos2 + windowStep)) < nat (e - pos2)"
        using True assms by simp
      from less [OF this, of "pos1 + windowStep" "windowCount + 1" "out @ [?one]"]
      obtain rows where
        r: "sw_loop b windowStep e (pos1 + windowStep) (pos2 + windowStep) (windowCount + 1)
              (out @ [?one])
            = Some ((out @ [?one]) @ rows, windowCount + 1 + int (length rows))"
        and p: "pos2 + windowStep = pos1 + windowStep + windowSize \<and> windowStep \<le> windowSize
                \<longrightarrow> (\<forall>r\<in>set rows. w_start r < w_end r)"
        by blast
      from True under r
      have "sw_loop b windowStep e pos1 pos2 windowCount out
            = Some (out @ (?one # rows), windowCount + int (length (?one # rows)))"
        by (subst sw_loop.simps) simp
      moreover have "pos2 = pos1 + windowSize \<and> windowStep \<le> windowSize
            \<longrightarrow> (\<forall>r\<in>set (?one # rows). w_start r < w_end r)"
        using p assms by (auto simp: mk_row_def)
      ultimately show ?thesis by blast
    qed
  qed
qed

text \<open>
  With a step that is not positive the loop, once entered, never returns: with step 0 the
  line from 100 to 210 has no result.
\<close>

lemma sw_loop_diverges:
  assumes "windowStep \<le> 0" and "pos2 < e"
  shows "sw_loop b windowStep e pos1 pos2 windowCount out = None"
proof (rule ccontr)
  assume "sw_loop b windowStep e pos1 pos2 windowCount out \<noteq> None"
  then obtain y where y: "sw_loop b windowStep e pos1 pos2 windowCount out = Some y" by auto
  have "\<not> (windowStep \<le> 0 \<and> pos2 < e)"
  proof (rule sw_loop.raw_induct
      [where P = "\<lambda>b ws e p1 p2 c out y. \<not> (ws \<le> 0 \<and> p2 < e)", OF _ y])
    fix f :: "bed_fields \<Rightarrow> int \<Rightarrow> int \<Rightarrow> int \<Rightarrow> int \<Rightarrow> int \<Rightarrow> window_row list
                \<Rightarrow> (window_row list \<times> int) option"
    fix b ws e p1 p2 c out y
    assume IH: "\<And>b ws e p1 p2 c out y. f b ws e p1 p2 c out = Some y \<Longrightarrow> \<not> (ws \<le> 0 \<and> p2 < e)"
      and body: "(if p2 < e
            then if e < p2 + ws
                 then f b ws e (p1 + ws) e (c + 2)
                        (out @ [mk_row b p1 p2 c, mk_row b (p1 + ws) e (c + 1)])
                 else f b ws e (p1 + ws) (p2 + ws) (c + 1) (out @ [mk_row b p1 p2 c])
            else Some (out, c)) = Some y"
    show "\<not> (ws \<le> 0 \<and> p2 < e)"
    proof
      assume a: "ws \<le> 0 \<and> p2 < e"
      with body have "f b ws e (p1 + ws) (p2 + ws) (c + 1) (out @ [mk_row b p1 p2 c]) = Some y"
        by simp
      from IH [OF this] have "\<not> (ws \<le> 0 \<and> p2 + ws < e)" .
      with a show False by simp
    qed
  qed
  with assms show False by simp
qed

lemma slidingWindow_zero_step_example:
  "slidingWindow dec_int 50 0
     [bed_line ''chr1'' ''100'' ''210'' ''g1@n1@protein_coding@exon@1/1@g1:exon0001'' ''0'' ''+'']
   = None"
proof -
  have p: "parse_bed dec_int
      (bed_line ''chr1'' ''100'' ''210'' ''g1@n1@protein_coding@exon@1/1@g1:exon0001'' ''0'' ''+'')
     = Inr \<lparr>b_chrom = ''chr1'', b_start = 100, b_end = 210,
            b_name = [''g1'', ''n1'', ''protein_coding'', ''exon'', ''1/1'', ''g1:exon0001''],
            b_featureNumber = ''1'', b_score = ''0'', b_strand = ''+''\<rparr>"
    by code_simp
  have t: "take 5 (bed_line ''chr1'' ''100'' ''210'' ''g1@n1@protein_coding@exon@1/1@g1:exon0001'' ''0'' ''+'') \<noteq> ''track''"
    by code_simp
  show ?thesis
    by (simp add: slidingWindow_def t sw_line_def p tile_def sw_loop_diverges)
qed

text \<open>
  C7: a line whose interval satisfies \<open>start + windowSize \<ge> end\<close> yields exactly one
  row, the window from \<open>start\<close> to \<open>end\<close>, whatever the step and the counter map.
  The example of the specification is the interval from 0 to 30 with window size 50.
\<close>

theorem slidingWindow_single_window:
  assumes "parse_bed to_int ln = Inr b" and "b_start b + windowSize \<ge> b_end b"
  shows "\<exists>r m'. sw_line to_int windowSize windowStep m ln = Some (Inr ([r], m'))
           \<and> w_start r = b_start b \<and> w_end r = b_end b"
  using assms by (simp add: sw_line_def tile_def mk_row_def Let_def)

theorem slidingWindow_single_window_witness:
  "parse_bed dec_int
      (bed_line ''chr1'' ''0'' ''30'' ''g1@n1@protein_coding@exon@1/1@g1:exon0001'' ''0'' ''+'')
     = Inr \<lparr>b_chrom = ''chr1'', b_start = 0, b_end = 30,
            b_name = [''g1'', ''n1'', ''protein_coding'', ''exon'', ''1/1'', ''g1:exon0001''],
            b_featureNumber = ''1'', b_score = ''0'', b_strand = ''+''\<rparr>
   \<and> (\<exists>r m'. sw_line dec_int 50 20 Map.empty
          (bed_line ''chr1'' ''0'' ''30'' ''g1@n1@protein_coding@exon@1/1@g1:exon0001'' ''0'' ''+'')
          = Some (Inr ([r], m')) \<and> w_start r = 0 \<and> w_end r = 30)"
proof -
  have p: "parse_bed dec_int
      (bed_line ''chr1'' ''0'' ''30'' ''g1@n1@protein_coding@exon@1/1@g1:exon0001'' ''0'' ''+'')
     = Inr \<lparr>b_chrom = ''chr1'', b_start = 0, b_end = 30,
            b_name = [''g1'', ''n1'', ''protein_coding'', ''exon'', ''1/1'', ''g1:exon0001''],
            b_featureNumber = ''1'', b_score = ''0'', b_strand = ''+''\<rparr>"
    by code_simp
  show ?thesis
    using slidingWindow_single_window [OF p, of 50 20 Map.empty] p by simp
qed

text \<open>
  C1: the interval from 100 to 210 with window size 50 and step 20.  The third advance
  gives \<open>pos2 = 210\<close>, which is neither above \<open>end\<close> (so no truncated window is
  written) nor below it (so the loop ends): the rows are the three windows from 100,
  120 and 140, and the window from 160 to 210 is not written.
\<close>

theorem slidingWindow_end_reached_exactly:
  "slidingWindow dec_int 50 20
     [bed_line ''chr1'' ''100'' ''210'' ''g1@n1@protein_coding@exon@1/1@g1:exon0001'' ''0'' ''+'']
   = Some (Inr
       [\<lparr>w_chrom = ''chr1'', w_start = 100, w_end = 150,
           w_name = ''g1@n1@protein_coding@exon@1/1@g1:exon0001W00001@1'',
           w_score = ''0'', w_strand = ''+''\<rparr>,
        \<lparr>w_chrom = ''chr1'', w_start = 120, w_end = 170,
           w_name = ''g1@n1@protein_coding@exon@1/1@g1:exon0001W00002@2'',
           w_score = ''0'', w_strand = ''+''\<rparr>,
        \<lparr>w_chrom = ''chr1'', w_start = 140, w_end = 190,
           w_name = ''g1@n1@protein_coding@exon@1/1@g1:exon0001W00003@3'',
           w_score = ''0'', w_strand = ''+''\<rparr>])"
  by code_simp

text \<open>
  For comparison the interval from 100 to 215: the advance after the window from 160
  to 210 passes \<open>end\<close>, and the truncated window from 180 to 215 is written.
\<close>

lemma slidingWindow_truncated_example:
  "slidingWindow dec_int 50 20
     [bed_line ''chr1'' ''100'' ''215'' ''g1@n1@protein_coding@exon@1/1@g1:exon0001'' ''0'' ''+'']
   = Some (Inr
       [\<lparr>w_chrom = ''chr1'', w_start = 100, w_end = 150,
           w_name = ''g1@n1@protein_coding@exon@1/1@g1:exon0001W00001@1'',
           w_score = ''0'', w_strand = ''+''\<rparr>,
        \<lparr>w_chrom = ''chr1'', w_start = 120, w_end = 170,
           w_name = ''g1@n1@protein_coding@exon@1/1@g1:exon0001W00002@2'',
           w_score = ''0'', w_strand = ''+''\<rparr>,
        \<lparr>w_chrom = ''chr1'', w_start = 140, w_end = 190,
           w_name = ''g1@n1@protein_coding@exon@1/1@g1:exon0001W00003@3'',
           w_score = ''0'', w_strand = ''+''\<rparr>,
        \<lparr>w_chrom = ''chr1'', w_start = 160, w_end = 210,
           w_name = ''g1@n1@protein_coding@exon@1/1@g1:exon0001W00004@4'',
           w_score = ''0'', w_strand = ''+''\<rparr>,
        \<lparr>w_chrom = ''chr1'', w_start = 180, w_end = 215,
           w_name = ''g1@n1@protein_coding@exon@1/1@g1:exon0001W00005@5'',
           w_score = ''0'', w_strand = ''+''\<rparr>])"
  by code_simp

text \<open>
  C2: two lines with the same first name token, one window each.  The first window
  carries the counter 1; the value stored after the line is 2, and the lookup at the
  second line adds one again, so the second window of that name carries 3.
\<close>

theorem slidingWindow_counter_two_lines:
  "slidingWindow dec_int 50 20
     [bed_line ''chr1'' ''0'' ''30'' ''g1@n1@protein_coding@exon@1/2@g1:exon0001'' ''0'' ''+'',
      bed_line ''chr1'' ''60'' ''90'' ''g1@n1@protein_coding@exon@2/2@g1:exon0002'' ''0'' ''+'']
   = Some (Inr
       [\<lparr>w_chrom = ''chr1'', w_start = 0, w_end = 30,
           w_name = ''g1@n1@protein_coding@exon@1/2@g1:exon0001W00001@1'',
           w_score = ''0'', w_strand = ''+''\<rparr>,
        \<lparr>w_chrom = ''chr1'', w_start = 60, w_end = 90,
           w_name = ''g1@n1@protein_coding@exon@2/2@g1:exon0002W00003@3'',
           w_score = ''0'', w_strand = ''+''\<rparr>])"
  by code_simp

text \<open>
  The rows of a loop that returns are rows of \<open>sw_written\<close>, and no row of
  \<open>sw_written\<close> is empty when the window size is positive and the step is at most
  the window size.
\<close>

lemma sw_written_at_end: "sw_written n b windowStep e pos1 e windowCount = []"
  by (cases n) simp_all

lemma sw_written_nonempty:
  assumes "0 < windowSize" and "windowStep \<le> windowSize" and "pos2 = pos1 + windowSize"
  shows "\<forall>r\<in>set (sw_written n b windowStep e pos1 pos2 windowCount). w_start r < w_end r"
  using assms(3)
proof (induction n arbitrary: pos1 pos2 windowCount)
  case 0
  show ?case by simp
next
  case (Suc n)
  show ?case
  proof (cases "pos2 < e")
    case False
    then show ?thesis by simp
  next
    case True
    show ?thesis
    proof (cases "pos2 + windowStep > e")
      case over: True
      from True over Suc.prems assms(1,2) show ?thesis
        by (simp add: sw_written_at_end mk_row_def)
    next
      case under: False
      have "pos2 + windowStep = pos1 + windowStep + windowSize"
        using Suc.prems by simp
      from Suc.IH [OF this] True under Suc.prems assms(1) show ?thesis
        by (simp add: mk_row_def)
    qed
  qed
qed

lemma sw_loop_written:
  assumes "sw_loop b windowStep e pos1 pos2 windowCount out = Some y"
  shows "\<exists>n. fst y = out @ sw_written n b windowStep e pos1 pos2 windowCount"
proof (rule sw_loop.raw_induct
    [where P = "\<lambda>b ws e p1 p2 c out y. \<exists>n. fst y = out @ sw_written n b ws e p1 p2 c",
     OF _ assms])
  fix f :: "bed_fields \<Rightarrow> int \<Rightarrow> int \<Rightarrow> int \<Rightarrow> int \<Rightarrow> int \<Rightarrow> window_row list
              \<Rightarrow> (window_row list \<times> int) option"
  fix b ws e p1 p2 c out y
  assume IH: "\<And>b ws e p1 p2 c out y. f b ws e p1 p2 c out = Some y
                \<Longrightarrow> \<exists>n. fst y = out @ sw_written n b ws e p1 p2 c"
    and body: "(if p2 < e
          then if e < p2 + ws
               then f b ws e (p1 + ws) e (c + 2)
                      (out @ [mk_row b p1 p2 c, mk_row b (p1 + ws) e (c + 1)])
               else f b ws e (p1 + ws) (p2 + ws) (c + 1) (out @ [mk_row b p1 p2 c])
          else Some (out, c)) = Some y"
  show "\<exists>n. fst y = out @ sw_written n b ws e p1 p2 c"
  proof (cases "p2 < e")
    case False
    with body have "fst y = out @ sw_written 0 b ws e p1 p2 c" by auto
    then show ?thesis ..
  next
    case True
    show ?thesis
    proof (cases "e < p2 + ws")
      case over: True
      with True body have "f b ws e (p1 + ws) e (c + 2)
                      (out @ [mk_row b p1 p2 c, mk_row b (p1 + ws) e (c + 1)]) = Some y"
        by simp
      from IH [OF this] obtain n where
        "fst y = (out @ [mk_row b p1 p2 c, mk_row b (p1 + ws) e (c + 1)])
                   @ sw_written n b ws e (p1 + ws) e (c + 2)" ..
      with True over have "fst y = out @ sw_written (Suc n) b ws e p1 p2 c" by simp
      then show ?thesis ..
    next
      case under: False
      with True body have "f b ws e (p1 + ws) (p2 + ws) (c + 1) (out @ [mk_row b p1 p2 c]) = Some y"
        by simp
      from IH [OF this] obtain n where
        "fst y = (out @ [mk_row b p1 p2 c]) @ sw_written n b ws e (p1 + ws) (p2 + ws) (c + 1)" ..
      with True under have "fst y = out @ sw_written (Suc n) b ws e p1 p2 c" by simp
      then show ?thesis ..
    qed
  qed
qed

lemma sw_line_returns_written:
  assumes "sw_line to_int windowSize windowStep m ln = Some (Inr (rows, m'))"
  shows "\<exists>n. rows = sw_line_written n to_int windowSize windowStep m ln"
proof (cases "parse_bed to_int ln")
  case (Inl e)
  with assms show ?thesis by (simp add: sw_line_def)
next
  case (Inr b)
  define c where "c = (case m (b_name b ! 0) of Some c \<Rightarrow> c + 1 | None \<Rightarrow> (1::int))"
  show ?thesis
  proof (cases "b_start b + windowSize \<ge> b_end b")
    case True
    with assms Inr show ?thesis
      by (auto simp: sw_line_def sw_line_written_def tile_def Let_def)
  next
    case False
    with assms Inr obtain c' where
      "sw_loop b windowStep (b_end b) (b_start b) (b_start b + windowSize) c [] = Some (rows, c')"
      by (auto simp: sw_line_def tile_def Let_def c_def split: option.splits)
    from sw_loop_written [OF this] obtain n where
      "rows = sw_written n b windowStep (b_end b) (b_start b) (b_start b + windowSize) c"
      by auto
    with False Inr have "rows = sw_line_written n to_int windowSize windowStep m ln"
      by (simp add: sw_line_written_def Let_def c_def)
    then show ?thesis ..
  qed
qed

lemma sw_line_written_nonempty:
  assumes "parse_bed to_int ln = Inr b" and "b_start b < b_end b"
    and "(0 < windowSize \<and> windowStep \<le> windowSize) \<or> b_end b \<le> b_start b + windowSize"
  shows "\<forall>r\<in>set (sw_line_written n to_int windowSize windowStep m ln). w_start r < w_end r"
proof (cases "b_end b \<le> b_start b + windowSize")
  case True
  with assms(1,2) show ?thesis
    by (simp add: sw_line_written_def mk_row_def Let_def)
next
  case False
  with assms(3) have "0 < windowSize" "windowStep \<le> windowSize" by auto
  from sw_written_nonempty [OF this refl] False assms(1) show ?thesis
    by (simp add: sw_line_written_def Let_def)
qed

text \<open>
  C10, as stated, fails on a line whose interval is empty: with step 20 and window
  size 50 the line from 5 to 5 yields the window from 5 to 5.  It also fails for a
  window size that is not positive: with window size 0 and step 0 the first row written
  for the line from 0 to 30 is the window from 0 to 0.
\<close>

theorem slidingWindow_empty_window_counterexample:
  "slidingWindow dec_int 50 20
     [bed_line ''chr1'' ''5'' ''5'' ''g1@n1@protein_coding@exon@1/1@g1:exon0001'' ''0'' ''+'']
   = Some (Inr [\<lparr>w_chrom = ''chr1'', w_start = 5, w_end = 5,
           w_name = ''g1@n1@protein_coding@exon@1/1@g1:exon0001W00001@1'',
           w_score = ''0'', w_strand = ''+''\<rparr>])
   \<and> sw_line_written 1 dec_int 0 0 Map.empty
       (bed_line ''chr1'' ''0'' ''30'' ''g1@n1@protein_coding@exon@1/1@g1:exon0001'' ''0'' ''+'')
     = [\<lparr>w_chrom = ''chr1'', w_start = 0, w_end = 0,
           w_name = ''g1@n1@protein_coding@exon@1/1@g1:exon0001W00001@1'',
           w_score = ''0'', w_strand = ''+''\<rparr>]"
  by code_simp

text \<open>
  C10, amended: for a line with \<open>start < end\<close>, if \<open>0 < windowSize\<close> and
  \<open>windowStep \<le> windowSize\<close>, every row written for the line has its start strictly
  below its end, the truncated last window included.  That holds for the rows written by
  any number of passes through the loop, so also for a loop that never returns
  (\<open>windowStep \<le> 0\<close>), and for the rows of a body that returns; with a positive step
  the body returns.  In the single-window case (\<open>end \<le> start + windowSize\<close>) nothing
  is asked of the window size or the step.
\<close>

theorem slidingWindow_nonempty_windows:
  assumes "parse_bed to_int ln = Inr b" and "b_start b < b_end b"
    and "(0 < windowSize \<and> windowStep \<le> windowSize) \<or> b_end b \<le> b_start b + windowSize"
  shows "(\<forall>r\<in>set (sw_line_written n to_int windowSize windowStep m ln). w_start r < w_end r)
   \<and> (\<forall>rows m'. sw_line to_int windowSize windowStep m ln = Some (Inr (rows, m'))
         \<longrightarrow> (\<forall>r\<in>set rows. w_start r < w_end r))
   \<and> (0 < windowStep \<or> b_end b \<le> b_start b + windowSize
         \<longrightarrow> (\<exists>rows m'. sw_line to_int windowSize windowStep m ln = Some (Inr (rows, m'))))"
proof -
  note w = sw_line_written_nonempty [OF assms]
  have a: "\<forall>r\<in>set rows. w_start r < w_end r"
    if "sw_line to_int windowSize windowStep m ln = Some (Inr (rows, m'))" for rows m'
  proof -
    from sw_line_returns_written [OF that] obtain k where
      "rows = sw_line_written k to_int windowSize windowStep m ln" ..
    with w [of k m] show ?thesis by simp
  qed
  have b: "\<exists>rows m'. sw_line to_int windowSize windowStep m ln = Some (Inr (rows, m'))"
    if "0 < windowStep \<or> b_end b \<le> b_start b + windowSize"
  proof (cases "b_end b \<le> b_start b + windowSize")
    case True
    with assms(1) show ?thesis
      by (simp add: sw_line_def tile_def Let_def)
  next
    case False
    with that have st: "0 < windowStep" by simp
    define c where "c = (case m (b_name b ! 0) of Some c \<Rightarrow> c + 1 | None \<Rightarrow> (1::int))"
    from sw_loop_rows [OF st, of b "b_end b" "b_start b" "b_start b + windowSize" c "[]"]
    obtain rows where
      "sw_loop b windowStep (b_end b) (b_start b) (b_start b + windowSize) c []
          = Some (rows, c + int (length rows))"
      by auto
    with False assms(1) have "sw_line to_int windowSize windowStep m ln
        = Some (Inr (rows, m(b_name b ! 0 \<mapsto> c + int (length rows))))"
      by (simp add: sw_line_def tile_def Let_def c_def)
    then show ?thesis by blast
  qed
  from w [of n m] a b show ?thesis by blast
qed

theorem slidingWindow_nonempty_windows_witness:
  "parse_bed dec_int
      (bed_line ''chr1'' ''100'' ''215'' ''g1@n1@protein_coding@exon@1/1@g1:exon0001'' ''0'' ''+'')
     = Inr \<lparr>b_chrom = ''chr1'', b_start = 100, b_end = 215,
            b_name = [''g1'', ''n1'', ''protein_coding'', ''exon'', ''1/1'', ''g1:exon0001''],
            b_featureNumber = ''1'', b_score = ''0'', b_strand = ''+''\<rparr>
   \<and> (\<exists>rows m'. sw_line dec_int 50 20 Map.empty
          (bed_line ''chr1'' ''100'' ''215'' ''g1@n1@protein_coding@exon@1/1@g1:exon0001'' ''0'' ''+'')
          = Some (Inr (rows, m')) \<and> (\<forall>r\<in>set rows. w_start r < w_end r))
   \<and> list_all (\<lambda>r. w_start r < w_end r)
        (sw_line_written 3 dec_int 50 0 Map.empty
          (bed_line ''chr1'' ''100'' ''215'' ''g1@n1@protein_coding@exon@1/1@g1:exon0001'' ''0'' ''+''))
   \<and> length (sw_line_written 3 dec_int 50 0 Map.empty
          (bed_line ''chr1'' ''100'' ''215'' ''g1@n1@protein_coding@exon@1/1@g1:exon0001'' ''0'' ''+''))
      = 3"
proof -
  have p: "parse_bed dec_int
      (bed_line ''chr1'' ''100'' ''215'' ''g1@n1@protein_coding@exon@1/1@g1:exon0001'' ''0'' ''+'')
     = Inr \<lparr>b_chrom = ''chr1'', b_start = 100, b_end = 215,
            b_name = [''g1'', ''n1'', ''protein_coding'', ''exon'', ''1/1'', ''g1:exon0001''],
            b_featureNumber = ''1'', b_score = ''0'', b_strand = ''+''\<rparr>"
    by code_simp
  have l: "length (sw_line_written 3 dec_int 50 0 Map.empty
          (bed_line ''chr1'' ''100'' ''215'' ''g1@n1@protein_coding@exon@1/1@g1:exon0001'' ''0'' ''+''))
      = 3"
    by code_simp
  from slidingWindow_nonempty_windows [OF p, of 50 20 _ Map.empty]
    slidingWindow_nonempty_windows [OF p, of 50 0 3 Map.empty]
  show ?thesis
    using p l by (simp add: list_all_iff) blast
qed

section \<open>Properties of GeneInfo\<close>

lemma type_positions_snoc:
  "type_positions (fl @ [f]) t = type_positions fl t @ (if f_type f = t then [length fl] else [])"
proof -
  have "filter (\<lambda>i. f_type ((fl @ [f]) ! i) = t) [0..<length fl]
        = filter (\<lambda>i. f_type (fl ! i) = t) [0..<length fl]"
    by (rule filter_cong) (auto simp: nth_append)
  then show ?thesis by (simp add: type_positions_def)
qed

lemma type_positions_sorted: "sorted_wrt (<) (type_positions fl t)"
  unfolding type_positions_def by (rule sorted_wrt_filter) simp

lemma type_positions_set:
  "set (type_positions fl t) = {i. i < length fl \<and> f_type (fl ! i) = t}"
  by (auto simp: type_positions_def)

lemma GeneInfo_inv_iff:
  "GeneInfo_inv g \<longleftrightarrow>
     typeMap g = (\<lambda>t. if type_positions (featList g) t = [] then None
                      else Some (type_positions (featList g) t))"
  (is "?L \<longleftrightarrow> ?R")
proof
  assume L: ?L
  show ?R
  proof
    fix t
    show "typeMap g t = (if type_positions (featList g) t = [] then None
                      else Some (type_positions (featList g) t))"
    proof (cases "typeMap g t")
      case None
      from L have "case typeMap g t of
            None \<Rightarrow> \<forall>i<length (featList g). f_type (featList g ! i) \<noteq> t
          | Some inds \<Rightarrow>
              inds \<noteq> [] \<and> sorted_wrt (<) inds
              \<and> set inds = {i. i < length (featList g) \<and> f_type (featList g ! i) = t}"
        unfolding GeneInfo_inv_def by blast
      with None have "\<forall>i<length (featList g). f_type (featList g ! i) \<noteq> t"
        by simp
      then have "set (type_positions (featList g) t) = {}"
        by (auto simp: type_positions_set)
      with None show ?thesis by simp
    next
      case (Some inds)
      from L have "case typeMap g t of
            None \<Rightarrow> \<forall>i<length (featList g). f_type (featList g ! i) \<noteq> t
          | Some inds \<Rightarrow>
              inds \<noteq> [] \<and> sorted_wrt (<) inds
              \<and> set inds = {i. i < length (featList g) \<and> f_type (featList g ! i) = t}"
        unfolding GeneInfo_inv_def by blast
      with Some have ne: "inds \<noteq> []" and so: "sorted_wrt (<) inds"
        and se: "set inds = set (type_positions (featList g) t)"
        by (simp_all add: type_positions_set)
      from so se have "inds = type_positions (featList g) t"
        using type_positions_sorted [of "featList g" t]
        by (metis strict_sorted_equal)
      with ne Some show ?thesis by simp
    qed
  qed
next
  assume R: ?R
  show ?L
    unfolding GeneInfo_inv_def
  proof
    fix t
    show "case typeMap g t of
            None \<Rightarrow> \<forall>i<length (featList g). f_type (featList g ! i) \<noteq> t
          | Some inds \<Rightarrow>
              inds \<noteq> [] \<and> sorted_wrt (<) inds
              \<and> set inds = {i. i < length (featList g) \<and> f_type (featList g ! i) = t}"
    proof (cases "type_positions (featList g) t = []")
      case True
      then have "set (type_positions (featList g) t) = {}" by simp
      then have "\<forall>i<length (featList g). f_type (featList g ! i) \<noteq> t"
        unfolding type_positions_set by blast
      moreover from True R have "typeMap g t = None" by (simp add: fun_eq_iff)
      ultimately show ?thesis by simp
    next
      case False
      with R have "typeMap g t = Some (type_positions (featList g) t)" by (simp add: fun_eq_iff)
      with False show ?thesis
        by (simp add: type_positions_sorted type_positions_set)
    qed
  qed
qed

lemma GeneInfo_inv_init: "GeneInfo_inv (GeneInfo_init i defs)"
  by (simp add: GeneInfo_inv_def GeneInfo_init_def)

lemma GeneInfo_inv_add:
  assumes "GeneInfo_inv g"
  shows "GeneInfo_inv (add_feature g f)"
proof -
  from assms have tm: "typeMap g = (\<lambda>t. if type_positions (featList g) t = [] then None
                      else Some (type_positions (featList g) t))"
    by (simp add: GeneInfo_inv_iff)
  have "typeMap (add_feature g f) t
        = (if type_positions (featList (add_feature g f)) t = [] then None
           else Some (type_positions (featList (add_feature g f)) t))" for t
    by (simp add: add_feature_def Let_def type_positions_snoc tm)
  then show ?thesis
    by (subst GeneInfo_inv_iff) (simp add: fun_eq_iff)
qed

lemma featList_add_feature: "featList (add_feature g f) = featList g @ [f]"
  by (simp add: add_feature_def Let_def)

lemma geneDefinitions_add_feature: "geneDefinitions (add_feature g f) = geneDefinitions g"
  by (simp add: add_feature_def Let_def)

lemma gi_id_add_feature: "gi_id (add_feature g f) = gi_id g"
  by (simp add: add_feature_def Let_def)

lemma foldl_add_feature:
  "featList (foldl add_feature g fs) = featList g @ fs
   \<and> geneDefinitions (foldl add_feature g fs) = geneDefinitions g
   \<and> gi_id (foldl add_feature g fs) = gi_id g
   \<and> (GeneInfo_inv g \<longrightarrow> GeneInfo_inv (foldl add_feature g fs))"
  by (induction fs arbitrary: g)
     (simp_all add: featList_add_feature geneDefinitions_add_feature gi_id_add_feature
        GeneInfo_inv_add)

lemma map_nth_positions:
  "map ((!) xs) (filter (\<lambda>i. P (xs ! i)) [0..<length xs]) = filter P xs"
proof (induction xs rule: rev_induct)
  case Nil
  show ?case by simp
next
  case (snoc x xs)
  have a: "filter (\<lambda>i. P ((xs @ [x]) ! i)) [0..<length xs] = filter (\<lambda>i. P (xs ! i)) [0..<length xs]"
    by (rule filter_cong) (auto simp: nth_append)
  have b: "map ((!) (xs @ [x])) (filter (\<lambda>i. P (xs ! i)) [0..<length xs])
           = map ((!) xs) (filter (\<lambda>i. P (xs ! i)) [0..<length xs])"
    by (rule map_cong) (auto simp: nth_append)
  show ?case using snoc by (simp add: a b)
qed

lemma map_nth_type_positions:
  "map ((!) fl) (type_positions fl t) = filter (\<lambda>f. f_type f = t) fl"
  unfolding type_positions_def by (rule map_nth_positions)

lemma card_image_one:
  assumes "S \<noteq> {}" and "finite S"
  shows "card (h ` S) = 1 \<longleftrightarrow> (\<forall>x\<in>S. \<forall>y\<in>S. h x = h y)"
proof
  assume "card (h ` S) = 1"
  then obtain v where v: "h ` S = {v}" by (auto simp: card_1_singleton_iff)
  have "h x = v" if "x \<in> S" for x
    using that v by blast
  then show "\<forall>x\<in>S. \<forall>y\<in>S. h x = h y" by simp
next
  assume eq: "\<forall>x\<in>S. \<forall>y\<in>S. h x = h y"
  from assms obtain a where "a \<in> S" by blast
  with eq have "h ` S = {h a}" by blast
  then show "card (h ` S) = 1" by simp
qed

lemma checkGeneFeature_loop_ok:
  assumes "\<forall>i\<in>set inds. i < length fl"
  shows "checkGeneFeature_loop fl inds (s, e, st)
         = Inr (f_start ` set (map ((!) fl) inds) \<union> s,
                f_end ` set (map ((!) fl) inds) \<union> e,
                f_strand ` set (map ((!) fl) inds) \<union> st)"
  using assms by (induction inds arbitrary: s e st) auto

lemma checkGeneFeature_positions:
  assumes "type_positions (featList g) t \<noteq> []"
  shows "checkGeneFeature g (type_positions (featList g) t)
         = Inr (same_coordinates (filter (\<lambda>f. f_type f = t) (featList g)))"
proof -
  let ?occ = "filter (\<lambda>f. f_type f = t) (featList g)"
  have in_range: "\<forall>i\<in>set (type_positions (featList g) t). i < length (featList g)"
    by (simp add: type_positions_set)
  have ne: "set ?occ \<noteq> {}"
    using assms map_nth_type_positions [of "featList g" t]
    by (metis map_is_Nil_conv set_empty)
  have "same_coordinates fs
        \<longleftrightarrow> (\<forall>x\<in>set fs. \<forall>y\<in>set fs. f_start x = f_start y)
          \<and> (\<forall>x\<in>set fs. \<forall>y\<in>set fs. f_end x = f_end y)
          \<and> (\<forall>x\<in>set fs. \<forall>y\<in>set fs. f_strand x = f_strand y)" for fs
    unfolding same_coordinates_def prod.inject by blast
  then have sc: "same_coordinates ?occ
        \<longleftrightarrow> card (f_start ` set ?occ) = 1 \<and> card (f_end ` set ?occ) = 1
                   \<and> card (f_strand ` set ?occ) = 1"
    by (simp only: card_image_one [OF ne finite_set])
  show ?thesis
    unfolding checkGeneFeature_def
    by (simp add: checkGeneFeature_loop_ok [OF in_range] map_nth_type_positions sc)
qed

lemma geneDef_present:
  assumes "GeneInfo_inv g"
  shows "Set.filter (\<lambda>t. typeMap g t \<noteq> None) (geneDefinitions g) = gene_types_present g"
proof -
  have "typeMap g t \<noteq> None \<longleftrightarrow> (\<exists>f\<in>set (featList g). f_type f = t)" for t
  proof -
    have "typeMap g t \<noteq> None \<longleftrightarrow> set (type_positions (featList g) t) \<noteq> {}"
      using assms by (simp add: GeneInfo_inv_iff)
    also have "\<dots> \<longleftrightarrow> (\<exists>i. i < length (featList g) \<and> f_type (featList g ! i) = t)"
      unfolding type_positions_set by blast
    also have "\<dots> \<longleftrightarrow> (\<exists>f\<in>set (featList g). f_type f = t)"
      by (metis in_set_conv_nth)
    finally show ?thesis .
  qed
  then show ?thesis by (auto simp: gene_types_present_def)
qed

lemma gene_one_type:
  assumes inv: "GeneInfo_inv g" and one: "gene_types_present g = {t}"
  shows "gene_occurrences g = filter (\<lambda>f. f_type f = t) (featList g)"
    and "typeMap g t = Some (type_positions (featList g) t)"
    and "type_positions (featList g) t \<noteq> []"
    and "length (type_positions (featList g) t) = length (gene_occurrences g)"
    and "featList g ! (type_positions (featList g) t ! 0) = hd (gene_occurrences g)"
    and "type_positions (featList g) t ! 0 < length (featList g)"
proof -
  let ?ps = "type_positions (featList g) t"
  have "f_type f \<in> geneDefinitions g \<longleftrightarrow> f_type f = t" if "f \<in> set (featList g)" for f
    using one that unfolding gene_types_present_def by blast
  then show occ: "gene_occurrences g = filter (\<lambda>f. f_type f = t) (featList g)"
    unfolding gene_occurrences_def by (intro filter_cong refl)
  from one have "\<exists>f\<in>set (featList g). f_type f = t"
    unfolding gene_types_present_def by blast
  then have "\<exists>i. i < length (featList g) \<and> f_type (featList g ! i) = t"
    by (metis in_set_conv_nth)
  then have "set ?ps \<noteq> {}"
    unfolding type_positions_set by blast
  then show ne: "?ps \<noteq> []" by auto
  with inv show "typeMap g t = Some ?ps" by (simp add: GeneInfo_inv_iff)
  have m: "map ((!) (featList g)) ?ps = gene_occurrences g"
    by (simp add: occ map_nth_type_positions)
  then show "length ?ps = length (gene_occurrences g)"
    by (metis length_map)
  from ne m show "featList g ! (?ps ! 0) = hd (gene_occurrences g)"
    by (metis hd_conv_nth hd_map)
  from ne have "?ps ! 0 \<in> set ?ps" by simp
  then show "?ps ! 0 < length (featList g)" by (simp add: type_positions_set)
qed


lemma gene_by_cases:
  assumes inv: "GeneInfo_inv g"
  shows "gene g =
     (if card (gene_types_present g) = 0
      then Inr (None, [gi_id g @ '': No gene definitions found!...Skipping'' @ [CHR 0x0A]])
      else if card (gene_types_present g) > 1
      then Inr (None, [gi_id g @ '': Multiple gene definitions found!...Skipping'' @ [CHR 0x0A]])
      else if length (gene_occurrences g) > 1
      then (if same_coordinates (gene_occurrences g)
            then Inr (Some (hd (gene_occurrences g)),
                   [gi_id g @ '': Found multiple attributes for the same gene co-ordinates, using one at random'' @ [CHR 0x0A]])
            else Inr (None, [gi_id g @ '': Multiple gene features found!...Skipping'' @ [CHR 0x0A]]))
      else Inr (Some (hd (gene_occurrences g)), []))"
proof (cases "card (gene_types_present g) = 1")
  case False
  then show ?thesis
    unfolding gene_def geneDef_present [OF inv] by (auto simp: Let_def)
next
  case True
  then obtain t where one: "gene_types_present g = {t}"
    by (auto simp: card_1_singleton_iff)
  note f = gene_one_type [OF inv one]
  from f(3) have cons: "\<exists>i is. type_positions (featList g) t = i # is"
    by (cases "type_positions (featList g) t") auto
  show ?thesis
  proof (cases "length (gene_occurrences g) > 1")
    case many: True
    then show ?thesis
      using f(1,2,4,5,6) checkGeneFeature_positions [OF f(3)]
      unfolding gene_def geneDef_present [OF inv]
      by (simp add: Let_def one py_nth_def)
  next
    case single: False
    from cons obtain i "is" where ps: "type_positions (featList g) t = i # is" by blast
    with f(5,6) have "featList g ! i = hd (gene_occurrences g)" "i < length (featList g)"
      by simp_all
    with single show ?thesis
      using f(2,4) ps
      unfolding gene_def geneDef_present [OF inv]
      by (simp add: Let_def one py_nth_def)
  qed
qed


lemma foldl_add_feature_init:
  "featList (foldl add_feature (GeneInfo_init i defs) fs) = fs"
  "geneDefinitions (foldl add_feature (GeneInfo_init i defs) fs) = set defs"
  "gi_id (foldl add_feature (GeneInfo_init i defs) fs) = i"
  "GeneInfo_inv (foldl add_feature (GeneInfo_init i defs) fs)"
proof -
  have "featList (GeneInfo_init i defs) = []" "geneDefinitions (GeneInfo_init i defs) = set defs"
    "gi_id (GeneInfo_init i defs) = i"
    by (simp_all add: GeneInfo_init_def)
  with foldl_add_feature [of "GeneInfo_init i defs" fs] GeneInfo_inv_init [of i defs]
  show "featList (foldl add_feature (GeneInfo_init i defs) fs) = fs"
    "geneDefinitions (foldl add_feature (GeneInfo_init i defs) fs) = set defs"
    "gi_id (foldl add_feature (GeneInfo_init i defs) fs) = i"
    "GeneInfo_inv (foldl add_feature (GeneInfo_init i defs) fs)"
    by simp_all
qed

text \<open>
  C9: the invariant holds for a new GeneInfo and every \<open>add_feature\<close> keeps it; the
  call appends the feature to the stored list, so that after any sequence of calls the
  property \<open>features\<close> returns every feature added, in insertion order.
\<close>

theorem GeneInfo_add_feature_invariant:
  "GeneInfo_inv (GeneInfo_init i defs)
   \<and> (GeneInfo_inv g \<longrightarrow> GeneInfo_inv (add_feature g f))
   \<and> features (add_feature g f) = features g @ [f]
   \<and> features (foldl add_feature (GeneInfo_init i defs) fs) = fs
   \<and> GeneInfo_inv (foldl add_feature (GeneInfo_init i defs) fs)"
  by (simp add: GeneInfo_inv_init GeneInfo_inv_add featList_add_feature features_def
      foldl_add_feature_init)

theorem GeneInfo_add_feature_invariant_witness:
  "GeneInfo_inv (GeneInfo_init ''g1'' GeneInfo_default_geneDefinitions)
   \<and> GeneInfo_inv (add_feature (GeneInfo_init ''g1'' GeneInfo_default_geneDefinitions)
        (example_feature ''gene'' 100 220 ''+'' ''g1''))
   \<and> typeMap (add_feature (add_feature (add_feature
          (GeneInfo_init ''g1'' GeneInfo_default_geneDefinitions)
          (example_feature ''gene'' 100 220 ''+'' ''g1''))
          (example_feature ''exon'' 100 150 ''+'' ''g1''))
          (example_feature ''gene'' 100 220 ''+'' ''g1'')) ''gene'' = Some [0, 2]"
proof -
  have "typeMap (add_feature (add_feature (add_feature
          (GeneInfo_init ''g1'' GeneInfo_default_geneDefinitions)
          (example_feature ''gene'' 100 220 ''+'' ''g1''))
          (example_feature ''exon'' 100 150 ''+'' ''g1''))
          (example_feature ''gene'' 100 220 ''+'' ''g1'')) ''gene'' = Some [0, 2]"
    by (simp add: add_feature_def GeneInfo_init_def example_feature_def Let_def)
  with GeneInfo_add_feature_invariant
         [of "''g1''" GeneInfo_default_geneDefinitions
             "GeneInfo_init ''g1'' GeneInfo_default_geneDefinitions"
             "example_feature ''gene'' 100 220 ''+'' ''g1''" "[]"]
  show ?thesis by blast
qed

text \<open>
  C3: for a GeneInfo that satisfies the invariant, \<open>gene\<close> never raises.  It returns
  \<open>None\<close> when no gene-defining type or more than one occurs among the stored
  features.  When exactly one occurs, it returns the first stored feature of that type
  if that is the only one (nothing is written) or if all of them share start, end and
  strand (with the warning), and \<open>None\<close> if the triples differ.
\<close>

theorem gene_resolution:
  assumes "GeneInfo_inv g"
  shows "(card (gene_types_present g) \<noteq> 1 \<longrightarrow> (\<exists>msg. gene g = Inr (None, [msg])))
   \<and> (card (gene_types_present g) = 1 \<and> length (gene_occurrences g) = 1
        \<longrightarrow> gene g = Inr (Some (hd (gene_occurrences g)), []))
   \<and> (card (gene_types_present g) = 1 \<and> 1 < length (gene_occurrences g)
        \<longrightarrow> gene g =
            (if same_coordinates (gene_occurrences g)
             then Inr (Some (hd (gene_occurrences g)),
                    [gi_id g @ '': Found multiple attributes for the same gene co-ordinates, using one at random'' @ [CHR 0x0A]])
             else Inr (None, [gi_id g @ '': Multiple gene features found!...Skipping'' @ [CHR 0x0A]])))
   \<and> (card (gene_types_present g) = 1 \<longrightarrow> gene_occurrences g \<noteq> [])"
proof -
  have ne: "gene_occurrences g \<noteq> []" if "card (gene_types_present g) = 1"
  proof -
    from that obtain t where one: "gene_types_present g = {t}"
      by (auto simp: card_1_singleton_iff)
    from gene_one_type(3,4) [OF assms one] show ?thesis by auto
  qed
  show ?thesis
    using ne by (auto simp: gene_by_cases [OF assms])
qed

theorem gene_resolution_witness:
  "GeneInfo_inv (foldl add_feature (GeneInfo_init ''g1'' GeneInfo_default_geneDefinitions)
      [example_feature ''gene'' 100 220 ''+'' ''g1'',
       example_feature ''exon'' 100 150 ''+'' ''g1'',
       example_feature ''gene'' 100 220 ''+'' ''g1''])
   \<and> gene (foldl add_feature (GeneInfo_init ''g1'' GeneInfo_default_geneDefinitions)
      [example_feature ''gene'' 100 220 ''+'' ''g1'',
       example_feature ''exon'' 100 150 ''+'' ''g1'',
       example_feature ''gene'' 100 220 ''+'' ''g1''])
     = Inr (Some (example_feature ''gene'' 100 220 ''+'' ''g1''),
         [''g1: Found multiple attributes for the same gene co-ordinates, using one at random''
            @ [CHR 0x0A]])"
proof -
  let ?g = "foldl add_feature (GeneInfo_init ''g1'' GeneInfo_default_geneDefinitions)
      [example_feature ''gene'' 100 220 ''+'' ''g1'',
       example_feature ''exon'' 100 150 ''+'' ''g1'',
       example_feature ''gene'' 100 220 ''+'' ''g1'']"
  have inv: "GeneInfo_inv ?g"
    by (rule foldl_add_feature_init)
  have fl: "featList ?g = [example_feature ''gene'' 100 220 ''+'' ''g1'',
       example_feature ''exon'' 100 150 ''+'' ''g1'',
       example_feature ''gene'' 100 220 ''+'' ''g1'']"
    and gd: "geneDefinitions ?g = set GeneInfo_default_geneDefinitions"
    and gid: "gi_id ?g = ''g1''"
    by (rule foldl_add_feature_init)+
  have present: "gene_types_present ?g = {''gene''}"
    unfolding gene_types_present_def fl gd
    by (auto simp: GeneInfo_default_geneDefinitions_def example_feature_def)
  have occ: "gene_occurrences ?g = [example_feature ''gene'' 100 220 ''+'' ''g1'',
       example_feature ''gene'' 100 220 ''+'' ''g1'']"
    unfolding gene_occurrences_def fl gd
    by (simp add: GeneInfo_default_geneDefinitions_def example_feature_def)
  have same: "same_coordinates (gene_occurrences ?g)"
    unfolding occ by (simp add: same_coordinates_def)
  from gene_resolution [OF inv] present occ same gid inv show ?thesis
    by simp
qed

section \<open>Properties of the sorted mode\<close>

lemma foldl_Gene_add: "foldl Gene_add g fs = g\<lparr>g_features := g_features g @ fs\<rparr>"
  by (induction fs arbitrary: g) (simp_all add: Gene_add_def)

lemma process_sorted_loop_subordinates:
  assumes "\<forall>f\<in>set subs. \<not> isGene f"
  shows "process_sorted_loop self isGene toBed sadd (Some g) st (subs @ rest)
         = process_sorted_loop self isGene toBed sadd (Some (foldl Gene_add g subs)) st rest"
  using assms by (induction subs arbitrary: g) simp_all

lemma process_sorted_loop_no_gene:
  assumes "\<forall>g\<in>set pre. \<not> isGene g" and "\<not> isGene f"
  shows "process_sorted_loop self isGene toBed sadd None st (pre @ f # rest) = Inl GeneOrderError"
  using assms by (cases pre) simp_all

lemma process_sorted_loop_subordinates_end:
  assumes "\<forall>f\<in>set subs. \<not> isGene f"
  shows "process_sorted_loop self isGene toBed sadd (Some g) st subs
         = Inr (Some (foldl Gene_add g subs), st)"
  using assms by (induction subs arbitrary: g) simp_all

text \<open>
  C4: in sorted mode a stream in which a feature that is not gene-defining comes before
  any gene-defining feature raises the ordering exception, in \<open>_process_sorted\<close> and
  so in \<open>process\<close>.  While a current gene exists, features that are not gene-defining
  raise nothing and write nothing: the loop ends with the current gene to which each of
  them was added by \<open>gene.add\<close>, in stream order, and a stream of a gene-defining
  feature followed by such features flattens exactly that gene.
\<close>

theorem process_sorted_ordering:
  assumes "\<forall>g\<in>set pre. \<not> isGene g" and "\<not> isGene f" and "\<forall>x\<in>set subs. \<not> isGene x"
  shows "process_sorted self isGene toBed sadd st (pre @ f # rest) = Inl GeneOrderError
   \<and> process self isGene toBed sadd False st (pre @ f # rest) = Inl GeneOrderError
   \<and> process_sorted_loop self isGene toBed sadd (Some g) st' subs
       = Inr (Some (foldl Gene_add g subs), st')
   \<and> foldl Gene_add g subs = g\<lparr>g_features := g_features g @ subs\<rparr>
   \<and> process_sorted_loop self isGene toBed sadd (Some g) st' (subs @ rest)
       = process_sorted_loop self isGene toBed sadd (Some (foldl Gene_add g subs)) st' rest
   \<and> (isGene gf \<longrightarrow>
        process_sorted self isGene toBed sadd st' (gf # subs)
        = Inr (processGene toBed sadd
                 (Some (foldl Gene_add
                    (Gene_init gf (splitExons self) (processGeneOnlyInformation self)) subs))
                 st'))"
proof -
  note e = process_sorted_loop_no_gene [OF assms(1,2)]
  note s = process_sorted_loop_subordinates_end [OF assms(3)]
  have "process_sorted self isGene toBed sadd st' (gf # subs)
        = Inr (processGene toBed sadd
                 (Some (foldl Gene_add
                    (Gene_init gf (splitExons self) (processGeneOnlyInformation self)) subs))
                 st')" if "isGene gf"
    using that by (simp add: process_sorted_def s processGene_def)
  then show ?thesis
    using process_sorted_loop_subordinates [OF assms(3), of self toBed sadd g st' rest]
    by (simp add: process_sorted_def process_def Let_def e s foldl_Gene_add)
qed

theorem process_sorted_ordering_witness:
  "process_sorted example_self (GTxFeature_isGene gffCLIP_geneDefinitions) example_toBed
      example_summary_add empty_run
      [example_feature ''exon'' 100 150 ''+'' ''g1'', example_feature ''gene'' 100 220 ''+'' ''g1'']
     = Inl GeneOrderError
   \<and> process_sorted_loop example_self (GTxFeature_isGene gffCLIP_geneDefinitions) example_toBed
       example_summary_add
       (Some (Gene_init (example_feature ''gene'' 100 220 ''+'' ''g1'') True True)) empty_run
       [example_feature ''exon'' 100 150 ''+'' ''g1'', example_feature ''CDS'' 110 140 ''+'' ''g1'']
     = Inr (Some \<lparr>g_feature = example_feature ''gene'' 100 220 ''+'' ''g1'',
              g_features = [example_feature ''exon'' 100 150 ''+'' ''g1'',
                            example_feature ''CDS'' 110 140 ''+'' ''g1''],
              g_splitExons = True, g_processGeneOnlyInformation = True\<rparr>, empty_run)"
proof -
  have a: "\<forall>g\<in>set []. \<not> GTxFeature_isGene gffCLIP_geneDefinitions g" by simp
  have b: "\<not> GTxFeature_isGene gffCLIP_geneDefinitions (example_feature ''exon'' 100 150 ''+'' ''g1'')"
    by (simp add: GTxFeature_isGene_def gffCLIP_geneDefinitions_def example_feature_def)
  have c: "\<forall>x\<in>set [example_feature ''exon'' 100 150 ''+'' ''g1'',
                    example_feature ''CDS'' 110 140 ''+'' ''g1''].
             \<not> GTxFeature_isGene gffCLIP_geneDefinitions x"
    by (simp add: GTxFeature_isGene_def gffCLIP_geneDefinitions_def example_feature_def)
  from process_sorted_ordering [OF a b c, of example_self example_toBed example_summary_add empty_run
      "[example_feature ''gene'' 100 220 ''+'' ''g1'']"
      "Gene_init (example_feature ''gene'' 100 220 ''+'' ''g1'') True True" empty_run]
  show ?thesis
    by (simp add: Gene_init_def)
qed

text \<open>
  A run of the sorted mode on two genes, the first with one exon.
\<close>

lemma process_sorted_example:
  "process_sorted example_self (GTxFeature_isGene gffCLIP_geneDefinitions) example_toBed
      example_summary_add empty_run
      [example_feature ''gene'' 100 220 ''+'' ''g1'', example_feature ''exon'' 100 150 ''+'' ''g1'',
       example_feature ''gene'' 300 400 ''-'' ''g2'']
   = Inr \<lparr>fOutput =
            [join [CHR 0x09] [''chr1'', ''100'', ''220'', ''gene'', ''0'', ''+''] @ [CHR 0x0A],
             join [CHR 0x09] [''chr1'', ''100'', ''150'', ''exon'', ''0'', ''+''] @ [CHR 0x0A],
             join [CHR 0x09] [''chr1'', ''300'', ''400'', ''gene'', ''0'', ''-''] @ [CHR 0x0A]],
          summary = \<lparr>chromosomes = [(''chr1'', 220)], genetypes = [(''gene'', 220)]\<rparr>,
          stderr = []\<rparr>"
  by code_simp

section \<open>Properties of the unsorted mode\<close>

lemma first_seen_snoc:
  "first_seen (xs @ [x]) = (if x \<in> set xs then first_seen xs else first_seen xs @ [x])"
  by (simp add: first_seen_def)

lemma set_first_seen [simp]: "set (first_seen xs) = set xs"
  by (simp add: first_seen_def)

lemma distinct_first_seen [simp]: "distinct (first_seen xs)"
  by (simp add: first_seen_def)

lemma first_seen_Nil [simp]: "first_seen [] = []"
  by (simp add: first_seen_def)

lemma odict_upd_map:
  assumes "distinct ks"
  shows "odict_upd k h (map (\<lambda>k'. (k', F k')) ks)
         = (if k \<in> set ks
            then map (\<lambda>k'. (k', if k' = k then h (Some (F k)) else F k')) ks
            else map (\<lambda>k'. (k', F k')) ks @ [(k, h None)])"
  using assms by (induction ks) auto

lemma map_filter_snoc:
  "List.map_filter h (xs @ [x]) = List.map_filter h xs @ (case h x of None \<Rightarrow> [] | Some y \<Rightarrow> [y])"
  by (simp add: List.map_filter_def split: option.splits)

lemma set_map_filter: "set (List.map_filter h xs) = {y. \<exists>x\<in>set xs. h x = Some y}"
  by (induction xs) (auto simp: List.map_filter_simps split: option.splits)

lemma gene_ids_snoc:
  "gene_ids self (seen @ [f])
   = (case map_of (f_attr f) (geneId self) of
        None \<Rightarrow> gene_ids self seen
      | Some k \<Rightarrow> if k \<in> set (gene_ids self seen) then gene_ids self seen
                  else gene_ids self seen @ [k])"
  by (simp add: gene_ids_def map_filter_snoc first_seen_snoc split: option.splits)

lemma set_gene_ids:
  "set (gene_ids self gtf) = {k. \<exists>f\<in>set gtf. map_of (f_attr f) (geneId self) = Some k}"
  by (simp add: gene_ids_def set_map_filter)

lemma gene_group_empty:
  "k \<notin> set (gene_ids self gtf) \<Longrightarrow> gene_group self gtf k = []"
  by (auto simp: set_gene_ids gene_group_def filter_empty_conv)

lemma gene_group_snoc:
  "gene_group self (seen @ [f]) k
   = gene_group self seen k @ (if map_of (f_attr f) (geneId self) = Some k then [f] else [])"
  by (simp add: gene_group_def)

lemma pass1_spec_skip:
  assumes "map_of (f_attr f) (geneId self) = None"
  shows "pass1_spec self (seen @ [f]) = pass1_spec self seen"
  using assms by (simp add: pass1_spec_def gene_ids_snoc gene_group_snoc)

lemma pass1_spec_add:
  assumes "map_of (f_attr f) (geneId self) = Some k"
  shows "geneMap_add k f (pass1_spec self seen) = pass1_spec self (seen @ [f])"
proof (cases "k \<in> set (gene_ids self seen)")
  case True
  have "distinct (gene_ids self seen)" by (simp add: gene_ids_def)
  then show ?thesis
    using True assms
    unfolding pass1_spec_def geneMap_add_def
    by (simp add: odict_upd_map gene_ids_snoc gene_group_snoc)
next
  case False
  have d: "distinct (gene_ids self seen)" by (simp add: gene_ids_def)
  have neq: "k' \<noteq> k" if "k' \<in> set (gene_ids self seen)" for k'
    using that False by auto
  show ?thesis
    using False assms neq
    unfolding pass1_spec_def geneMap_add_def
    by (simp add: odict_upd_map [OF d] gene_ids_snoc gene_group_snoc gene_group_empty)
qed

lemma unsorted_pass1_spec:
  "unsorted_pass1 self (pass1_spec self seen) gtf = pass1_spec self (seen @ gtf)"
proof (induction gtf arbitrary: seen)
  case Nil
  show ?case by simp
next
  case (Cons f gtf)
  show ?case
  proof (cases "map_of (f_attr f) (geneId self)")
    case None
    with Cons [of "seen @ [f]"] show ?thesis
      by (simp add: pass1_spec_skip)
  next
    case (Some k)
    with Cons [of "seen @ [f]"] show ?thesis
      by (simp add: pass1_spec_add)
  qed
qed

lemma unsorted_pass1_eq: "unsorted_pass1 self [] gtf = pass1_spec self gtf"
  using unsorted_pass1_spec [of self "[]" gtf] by (simp add: pass1_spec_def gene_ids_def List.map_filter_def)

lemma gene_resolved:
  assumes "GeneInfo_inv g"
  shows "\<exists>msgs. gene g = Inr (resolved g, msgs)"
proof (cases "card (gene_types_present g) = 1")
  case False
  then show ?thesis
    by (auto simp: gene_by_cases [OF assms] resolved_def)
next
  case True
  then obtain t where one: "gene_types_present g = {t}"
    by (auto simp: card_1_singleton_iff)
  from gene_one_type(3,4) [OF assms one] have "length (gene_occurrences g) \<noteq> 0" by auto
  then have "length (gene_occurrences g) = 1 \<or> 1 < length (gene_occurrences g)" by arith
  then show ?thesis
    using True by (auto simp: gene_by_cases [OF assms] resolved_def)
qed

lemma unsorted_gene_accumulator: "unsorted_gene self c g = accumulator self c g"
  by (simp add: unsorted_gene_def accumulator_def foldl_Gene_add Gene_init_def features_def)

lemma finalized_Cons:
  "finalized self ((k, g) # geneMap)
   = (case resolved g of
        None \<Rightarrow> finalized self geneMap
      | Some c \<Rightarrow> accumulator self c g # finalized self geneMap)"
  by (simp add: finalized_def List.map_filter_simps split: option.splits)

lemma unsorted_pass2_finalized:
  assumes "\<forall>(k, g)\<in>set geneMap. GeneInfo_inv g"
  shows "\<exists>st'. unsorted_pass2 self toBed sadd st geneMap = Inr st'
           \<and> fOutput st' = fOutput st @ bed_rows toBed (finalized self geneMap)
           \<and> summary st' = foldl (\<lambda>s g. sadd g s) (summary st) (finalized self geneMap)"
  using assms
proof (induction geneMap arbitrary: st)
  case Nil
  show ?case by (simp add: finalized_def bed_rows_def List.map_filter_simps)
next
  case (Cons kg geneMap)
  obtain k g where kg: "kg = (k, g)" by (cases kg)
  from Cons.prems kg have inv: "GeneInfo_inv g" and rest: "\<forall>(k, g)\<in>set geneMap. GeneInfo_inv g"
    by auto
  from gene_resolved [OF inv] obtain msgs where gm: "gene g = Inr (resolved g, msgs)" ..
  show ?case
  proof (cases "resolved g")
    case None
    from Cons.IH [OF rest, of "st\<lparr>stderr := stderr st @ msgs\<rparr>"] show ?thesis
      by (simp add: kg gm None finalized_Cons)
  next
    case (Some c)
    from Cons.IH [OF rest,
        of "processGene toBed sadd (Some (unsorted_gene self c g)) (st\<lparr>stderr := stderr st @ msgs\<rparr>)"]
    show ?thesis
      by (simp add: kg gm Some finalized_Cons processGene_def bed_rows_def
          unsorted_gene_accumulator)
  qed
qed

lemma pass1_spec_inv: "\<forall>(k, g)\<in>set (pass1_spec self gtf). GeneInfo_inv g"
  by (auto simp: pass1_spec_def foldl_add_feature_init)

lemma pass1_spec_empty_iff:
  "pass1_spec self gtf = [] \<longleftrightarrow> (\<forall>f\<in>set gtf. map_of (f_attr f) (geneId self) = None)"
proof -
  have "pass1_spec self gtf = [] \<longleftrightarrow> set (gene_ids self gtf) = {}"
    by (simp add: pass1_spec_def)
  also have "\<dots> \<longleftrightarrow> (\<forall>f\<in>set gtf. map_of (f_attr f) (geneId self) = None)"
  proof
    assume e: "set (gene_ids self gtf) = {}"
    show "\<forall>f\<in>set gtf. map_of (f_attr f) (geneId self) = None"
    proof
      fix f assume f: "f \<in> set gtf"
      show "map_of (f_attr f) (geneId self) = None"
      proof (rule ccontr)
        assume "map_of (f_attr f) (geneId self) \<noteq> None"
        then obtain k where "map_of (f_attr f) (geneId self) = Some k" by auto
        with f have "k \<in> set (gene_ids self gtf)" unfolding set_gene_ids by blast
        with e show False by simp
      qed
    qed
  next
    assume "\<forall>f\<in>set gtf. map_of (f_attr f) (geneId self) = None"
    then show "set (gene_ids self gtf) = {}" unfolding set_gene_ids by simp
  qed
  finally show ?thesis .
qed

text \<open>
  C5: the first pass of the unsorted mode drops every feature without the gene-id
  attribute and adds every other feature, in stream order, to the GeneInfo of its gene
  id, the ids in first-seen order.  When no feature carries the attribute the map is
  empty and \<open>_process_unsorted\<close>, and so \<open>process\<close>, raises the \<open>ValueError\<close>;
  when some feature carries it, that error is not raised.
\<close>

theorem unsorted_pass1_grouping:
  "unsorted_pass1 self [] gtf
     = map (\<lambda>k. (k, foldl add_feature (GeneInfo_init k GeneInfo_default_geneDefinitions)
                      (gene_group self gtf k))) (gene_ids self gtf)
   \<and> map (\<lambda>(k, g). (k, features g)) (unsorted_pass1 self [] gtf)
     = map (\<lambda>k. (k, gene_group self gtf k)) (gene_ids self gtf)
   \<and> ((\<forall>f\<in>set gtf. map_of (f_attr f) (geneId self) = None)
        \<longrightarrow> process_unsorted self toBed sadd st gtf = Inl NoGeneFeatures
          \<and> process self isGene toBed sadd True st gtf = Inl NoGeneFeatures)
   \<and> ((\<exists>f\<in>set gtf. map_of (f_attr f) (geneId self) \<noteq> None)
        \<longrightarrow> process_unsorted self toBed sadd st gtf \<noteq> Inl NoGeneFeatures)"
proof -
  have a: "unsorted_pass1 self [] gtf
     = map (\<lambda>k. (k, foldl add_feature (GeneInfo_init k GeneInfo_default_geneDefinitions)
                      (gene_group self gtf k))) (gene_ids self gtf)"
    using unsorted_pass1_eq [of self gtf] by (simp add: pass1_spec_def)
  have b: "map (\<lambda>(k, g). (k, features g)) (unsorted_pass1 self [] gtf)
     = map (\<lambda>k. (k, gene_group self gtf k)) (gene_ids self gtf)"
    unfolding a by (simp add: features_def foldl_add_feature_init)
  have c: "process_unsorted self toBed sadd st gtf = Inl NoGeneFeatures
          \<and> process self isGene toBed sadd True st' gtf = Inl NoGeneFeatures"
    if "\<forall>f\<in>set gtf. map_of (f_attr f) (geneId self) = None" for st'
    using that pass1_spec_empty_iff [of self gtf]
    by (simp add: process_unsorted_def process_def unsorted_pass1_eq Let_def)
  have d: "process_unsorted self toBed sadd st gtf \<noteq> Inl NoGeneFeatures"
    if "\<exists>f\<in>set gtf. map_of (f_attr f) (geneId self) \<noteq> None"
  proof -
    from that pass1_spec_empty_iff [of self gtf] have ne: "pass1_spec self gtf \<noteq> []" by simp
    from unsorted_pass2_finalized [OF pass1_spec_inv [of self gtf], of self toBed sadd st]
    obtain st' where "unsorted_pass2 self toBed sadd st (pass1_spec self gtf) = Inr st'" by blast
    with ne show ?thesis
      by (simp add: process_unsorted_def unsorted_pass1_eq Let_def)
  qed
  from a b c d show ?thesis by blast
qed

theorem unsorted_pass1_grouping_witness:
  "process_unsorted example_self example_toBed example_summary_add empty_run
     [(example_feature ''exon'' 100 150 ''+'' ''g1'')\<lparr>f_attr := [(''Parent'', ''t1'')]\<rparr>]
   = Inl NoGeneFeatures"
proof -
  have "\<forall>f\<in>set [(example_feature ''exon'' 100 150 ''+'' ''g1'')\<lparr>f_attr := [(''Parent'', ''t1'')]\<rparr>].
          map_of (f_attr f) (geneId example_self) = None"
    by (simp add: example_self_def)
  with unsorted_pass1_grouping [of example_self
      "[(example_feature ''exon'' 100 150 ''+'' ''g1'')\<lparr>f_attr := [(''Parent'', ''t1'')]\<rparr>]"
      example_toBed example_summary_add empty_run]
  show ?thesis by blast
qed

text \<open>
  C6: when some feature carries the gene-id attribute, the unsorted mode returns without
  an exception.  What it writes and what it adds to the summary comes from the finalized
  genes alone: a gene id whose resolution fails contributes no row and nothing to the
  summary, and a resolved gene is flattened with the features of its id that are not of
  a gene-defining type as its subordinates.
\<close>

theorem process_unsorted_skips_unresolved:
  assumes "\<exists>f\<in>set gtf. map_of (f_attr f) (geneId self) \<noteq> None"
  shows "\<exists>st'. process_unsorted self toBed sadd st gtf = Inr st'
     \<and> fOutput st' = fOutput st @ bed_rows toBed (finalized self (unsorted_pass1 self [] gtf))
     \<and> summary st'
         = foldl (\<lambda>s g. sadd g s) (summary st) (finalized self (unsorted_pass1 self [] gtf))"
proof -
  from assms pass1_spec_empty_iff [of self gtf] have ne: "pass1_spec self gtf \<noteq> []" by simp
  from unsorted_pass2_finalized [OF pass1_spec_inv [of self gtf], of self toBed sadd st] ne
  show ?thesis
    by (simp add: process_unsorted_def unsorted_pass1_eq Let_def)
qed

theorem process_unsorted_skips_unresolved_witness:
  "(\<exists>f\<in>set [example_feature ''exon'' 100 150 ''+'' ''g1'',
               example_feature ''exon'' 300 350 ''-'' ''g2'',
               example_feature ''gene'' 100 220 ''+'' ''g1''].
       map_of (f_attr f) (geneId example_self) \<noteq> None)
   \<and> (\<exists>st'. process_unsorted example_self example_toBed example_summary_add empty_run
            [example_feature ''exon'' 100 150 ''+'' ''g1'',
             example_feature ''exon'' 300 350 ''-'' ''g2'',
             example_feature ''gene'' 100 220 ''+'' ''g1''] = Inr st'
       \<and> fOutput st' = fOutput empty_run @ bed_rows example_toBed
            (finalized example_self (unsorted_pass1 example_self []
               [example_feature ''exon'' 100 150 ''+'' ''g1'',
                example_feature ''exon'' 300 350 ''-'' ''g2'',
                example_feature ''gene'' 100 220 ''+'' ''g1'']))
       \<and> summary st' = foldl (\<lambda>s g. example_summary_add g s) (summary empty_run)
            (finalized example_self (unsorted_pass1 example_self []
               [example_feature ''exon'' 100 150 ''+'' ''g1'',
                example_feature ''exon'' 300 350 ''-'' ''g2'',
                example_feature ''gene'' 100 220 ''+'' ''g1''])))"
proof -
  have h: "\<exists>f\<in>set [example_feature ''exon'' 100 150 ''+'' ''g1'',
               example_feature ''exon'' 300 350 ''-'' ''g2'',
               example_feature ''gene'' 100 220 ''+'' ''g1''].
       map_of (f_attr f) (geneId example_self) \<noteq> None"
    by (simp add: example_feature_def example_self_def)
  from h process_unsorted_skips_unresolved [OF h, of example_toBed example_summary_add empty_run]
  show ?thesis by blast
qed

text \<open>
  The run of the unsorted mode on five features: \<open>g1\<close> is resolved and written with
  its exon, \<open>g2\<close> has no gene-defining feature and \<open>g3\<close> has two gene-defining
  types; both are skipped with a diagnostic and leave no row and no length.
\<close>

lemma process_unsorted_example:
  "process_unsorted example_self example_toBed example_summary_add empty_run
     [example_feature ''exon'' 100 150 ''+'' ''g1'',
      example_feature ''exon'' 300 350 ''-'' ''g2'',
      example_feature ''gene'' 100 220 ''+'' ''g1'',
      example_feature ''gene'' 500 600 ''+'' ''g3'',
      example_feature ''tRNA'' 500 600 ''+'' ''g3'']
   = Inr \<lparr>fOutput =
            [join [CHR 0x09] [''chr1'', ''100'', ''220'', ''gene'', ''0'', ''+''] @ [CHR 0x0A],
             join [CHR 0x09] [''chr1'', ''100'', ''150'', ''exon'', ''0'', ''+''] @ [CHR 0x0A]],
          summary = \<lparr>chromosomes = [(''chr1'', 120)], genetypes = [(''gene'', 120)]\<rparr>,
          stderr = [''g2: No gene definitions found!...Skipping'' @ [CHR 0x0A],
                    ''g3: Multiple gene definitions found!...Skipping'' @ [CHR 0x0A]]\<rparr>"
  by code_simp

section \<open>Properties of the summary trailer\<close>










end
